theory Spec2Isabelle
  imports Main "HOL-Library.Word"
begin

section \<open>Data model of the Tomasulo simulator\<close>

text \<open>
  The model follows the second revision of the simulator (the file that carries the
  load/store queue and the \<open>nextRobTag\<close> counter). Conventions:
  \<^item> JavaScript numbers are modelled as \<open>int\<close>: every number the pipeline computes is an
    integer, and integer arithmetic on doubles is exact below \<open>2^53\<close>;
  \<^item> an \<open>Int32Array\<close> is a function from indices to \<open>int\<close>; a store wraps the value with
    \<open>ToInt32\<close> and is ignored out of range, as typed arrays do;
  \<^item> the decoded program is a list of templates, the one at position \<open>i\<close> living at byte
    address \<open>4 * i\<close>; register indices of a decoded instruction are architectural
    register numbers (0 to 31);
  \<^item> \<open>Date.now()\<close> is an input: \<open>now k\<close> is what the \<open>k\<close>-th call returns, and the state
    counts the calls made so far in \<open>dateNowCalls\<close> (the only field that is not in the
    source);
  \<^item> the log keeps each message as a structured event with the cycle it was tagged with;
    the DOM side of \<open>log\<close> and \<open>updateUI\<close> is not part of the model.
\<close>

datatype opcode = ADD | SUB | AND | OR | XOR | SLT | ADDI | LW | SW | BEQ | BNE | JAL | JALR | NOP

definition EXEC_LATENCIES_ALU :: int where "EXEC_LATENCIES_ALU = 1"
definition EXEC_LATENCIES_LOAD :: int where "EXEC_LATENCIES_LOAD = 2"
definition EXEC_LATENCIES_STORE :: int where "EXEC_LATENCIES_STORE = 1"
definition EXEC_LATENCIES_BRANCH :: int where "EXEC_LATENCIES_BRANCH = 1"

definition ToInt32 :: "int \<Rightarrow> int" where
  "ToInt32 x = (x + 2 ^ 31) mod 2 ^ 32 - 2 ^ 31"

subsection \<open>Cache\<close>

record cache_line =
  tag :: int
  lru :: int
  dirty :: bool

record cache =
  latency :: int
  missPenalty :: int
  tags :: "nat \<Rightarrow> nat \<Rightarrow> cache_line"
  accessCount :: nat
  hitCount :: nat
  missCount :: nat

definition ways :: nat where "ways = Suc (Suc 0)"

definition new_Cache :: "int \<Rightarrow> int \<Rightarrow> cache" where
  "new_Cache lat pen =
     \<lparr>latency = lat, missPenalty = pen,
      tags = (\<lambda>_ _. \<lparr>tag = - 1, lru = 0, dirty = False\<rparr>),
      accessCount = 0, hitCount = 0, missCount = 0\<rparr>"

text \<open>The replacement scan: the first way of smallest \<open>lru\<close>, starting from way 0.\<close>

definition victim :: "(nat \<Rightarrow> cache_line) \<Rightarrow> nat" where
  "victim st =
     snd (fold (\<lambda>i (minLru, victimIdx).
                  if lru (st i) < minLru then (lru (st i), i) else (minLru, victimIdx))
               [1..<ways] (lru (st 0), 0))"

text \<open>\<open>access t addr isWrite c\<close>: \<open>t\<close> is the value \<open>Date.now()\<close> returns in this call.\<close>

definition access :: "int \<Rightarrow> int \<Rightarrow> bool \<Rightarrow> cache \<Rightarrow> (bool \<times> int) \<times> cache" where
  "access t addr isWrite c =
     (let c1 = c\<lparr>accessCount := accessCount c + 1\<rparr>;
          index = nat (and (drop_bit 6 (ToInt32 addr)) 0x1F);
          tg = drop_bit 11 (ToInt32 addr);
          st = tags c index
      in case find (\<lambda>i. tag (st i) = tg) [0..<ways] of
           Some wayIdx \<Rightarrow>
             ((True, latency c),
              c1\<lparr>hitCount := hitCount c + 1,
                 tags := (tags c)(index := st(wayIdx :=
                   (st wayIdx)\<lparr>lru := t, dirty := (isWrite \<or> dirty (st wayIdx))\<rparr>))\<rparr>)
         | None \<Rightarrow>
             ((False, latency c + missPenalty c),
              c1\<lparr>missCount := missCount c + 1,
                 tags := (tags c)(index := st(victim st :=
                   \<lparr>tag = tg, lru = t, dirty = isWrite\<rparr>))\<rparr>))"

subsection \<open>Gshare predictor\<close>

record predictor_state =
  ghr :: int
  pht :: "nat \<Rightarrow> nat"

definition new_GsharePredictor :: predictor_state where
  "new_GsharePredictor = \<lparr>ghr = 0, pht = (\<lambda>_. 1)\<rparr>"

definition pht_index :: "predictor_state \<Rightarrow> int \<Rightarrow> nat" where
  "pht_index p a = nat (and (xor a (ghr p)) 0x3FF)"

definition predict :: "predictor_state \<Rightarrow> int \<Rightarrow> bool" where
  "predict p a = (pht p (pht_index p a) \<ge> 2)"

definition update :: "int \<Rightarrow> bool \<Rightarrow> predictor_state \<Rightarrow> predictor_state" where
  "update a taken p =
     (let index = pht_index p a;
          counter = pht p index;
          counter' = (if taken then (if counter < 3 then counter + 1 else counter)
                      else (if counter > 0 then counter - 1 else counter))
      in p\<lparr>pht := (pht p)(index := counter'),
           ghr := and (or (push_bit 1 (ghr p)) (if taken then 1 else 0)) 0x3FF\<rparr>)"

subsection \<open>Instructions, ROB, reservation stations, LSQ\<close>

text \<open>An entry of \<open>this.instructions\<close>, as the parser stores it.\<close>

record template =
  t_text :: string
  t_op :: opcode
  t_rd :: nat
  t_rs1 :: nat
  t_rs2 :: nat
  t_imm :: int

text \<open>
  Class \<open>Instruction\<close>. \<open>i_totalCycles\<close> is the property that stageFetchAndIssue adds
  right after construction.
\<close>

record instruction =
  i_pc :: int
  i_text :: string
  i_op :: opcode
  i_rd :: nat
  i_rs1 :: nat
  i_rs2 :: nat
  i_imm :: int
  i_robTag :: int
  i_predictedTaken :: bool
  i_targetAddr :: int
  i_executionCyclesLeft :: int
  i_totalCycles :: int
  i_isReady :: bool
  i_result :: int
  i_memAddr :: int
  i_isMemReady :: bool
  i_isStore :: bool
  i_isFlush :: bool

definition new_Instruction ::
  "int \<Rightarrow> string \<Rightarrow> opcode \<Rightarrow> nat \<Rightarrow> nat \<Rightarrow> nat \<Rightarrow> int \<Rightarrow> instruction" where
  "new_Instruction a txt opc d s1 s2 im =
     \<lparr>i_pc = a, i_text = txt, i_op = opc, i_rd = d, i_rs1 = s1, i_rs2 = s2, i_imm = im,
      i_robTag = - 1, i_predictedTaken = False, i_targetAddr = - 1,
      i_executionCyclesLeft = 0, i_totalCycles = 0, i_isReady = False, i_result = 0,
      i_memAddr = 0, i_isMemReady = False, i_isStore = (opc = SW), i_isFlush = False\<rparr>"

text \<open>The object literal pushed onto \<open>this.rob\<close>. It has no \<open>memAddr\<close> property.\<close>

record rob_entry =
  r_robTag :: int
  r_op :: opcode
  r_rd :: nat
  r_pc :: int
  r_instText :: string
  r_isReady :: bool
  r_result :: int
  r_predictedTaken :: bool
  r_targetAddr :: int

record lsq_entry =
  l_robTag :: int
  l_isStore :: bool
  l_memAddr :: int
  l_value :: int
  l_isMemReady :: bool

text \<open>
  A reservation station. initRS creates \<open>{ busy: false }\<close>; the other properties are
  absent until the first issue into the station and are read by no stage while \<open>busy\<close>
  is false, so \<open>free_rs\<close> gives them fixed values.
\<close>

record rs_entry =
  busy :: bool
  inst :: instruction
  rs_op :: opcode
  vj :: int
  vk :: int
  qj :: int
  qk :: int
  rs_robTag :: int

definition free_rs :: rs_entry where
  "free_rs = \<lparr>busy = False, inst = new_Instruction 0 [] NOP 0 0 0 0, rs_op = NOP,
              vj = 0, vk = 0, qj = - 1, qk = - 1, rs_robTag = 0\<rparr>"

datatype log_msg =
    ProgramaCarregado
  | ExecucaoFinalizada
  | FlushBranch int
  | CommitStore "int option" int
  | Exec string int
  | L1IMiss int
  | BranchPrevistoTomado int int
  | Issue string int

subsection \<open>Simulator state\<close>

record sim =
  memory :: "nat \<Rightarrow> int"
  regFile :: "nat \<Rightarrow> int"
  pc :: int
  clock :: nat
  rat :: "nat \<Rightarrow> int"
  rob :: "rob_entry list"
  rsALU :: "rs_entry list"
  rsLS :: "rs_entry list"
  lsq :: "lsq_entry list"
  robOccupationHistory :: "nat list"
  rsOccupationHistory :: "nat list"
  branchCorrect :: nat
  branchTotal :: nat
  l1i :: cache
  l1d :: cache
  predictor :: predictor_state
  instructions :: "template list"
  instructionsCommitted :: nat
  isRunning :: bool
  logs :: "(nat \<times> log_msg) list"
  nextRobTag :: int
  dateNowCalls :: nat

text \<open>\<open>this.robSize\<close> and \<open>this.width\<close> are set by the constructor and never assigned again.\<close>

definition robSize :: nat where "robSize = 32"
definition width :: nat where "width = 2"

definition initRS :: "nat \<Rightarrow> nat \<Rightarrow> sim \<Rightarrow> sim" where
  "initRS aluCount lsCount s =
     s\<lparr>rsALU := replicate aluCount free_rs, rsLS := replicate lsCount free_rs\<rparr>"

definition new_Simulator :: sim where
  "new_Simulator =
     initRS 8 4
      \<lparr>memory = (\<lambda>_. 0), regFile = (\<lambda>_. 0), pc = 0, clock = 0, rat = (\<lambda>_. - 1),
       rob = [], rsALU = [], rsLS = [], lsq = [],
       robOccupationHistory = [], rsOccupationHistory = [],
       branchCorrect = 0, branchTotal = 0,
       l1i = new_Cache 1 10, l1d = new_Cache 2 10, predictor = new_GsharePredictor,
       instructions = [], instructionsCommitted = 0, isRunning = False, logs = [],
       nextRobTag = 1, dateNowCalls = 0\<rparr>"

definition log :: "log_msg \<Rightarrow> sim \<Rightarrow> sim" where
  "log m s = s\<lparr>logs := logs s @ [(clock s, m)]\<rparr>"

text \<open>
  loadProgram. The parser is outside the model: the argument is what the parsing loop
  leaves in \<open>this.instructions\<close>, \<open>Inr prog\<close> when it runs to the end and \<open>Inl prog\<close>
  when a malformed line makes it throw after storing \<open>prog\<close> (then the final log call is
  not reached).
\<close>

definition loadProgram :: "template list + template list \<Rightarrow> sim \<Rightarrow> sim" where
  "loadProgram src s =
     (let s1 = initRS 8 4
                 (s\<lparr>pc := 0, memory := (\<lambda>_. 0), regFile := (\<lambda>_. 0), rat := (\<lambda>_. - 1),
                    rob := []\<rparr>);
          s2 = s1\<lparr>clock := 0, instructionsCommitted := 0, logs := []\<rparr>
      in case src of
           Inl prog \<Rightarrow> s2\<lparr>instructions := prog\<rparr>
         | Inr prog \<Rightarrow> log ProgramaCarregado (s2\<lparr>instructions := prog\<rparr>))"

subsection \<open>Flush and commit\<close>

definition flushPipeline :: "int \<Rightarrow> bool \<Rightarrow> sim \<Rightarrow> sim" where
  "flushPipeline correctPC taken s =
     (let s1 = initRS 8 4 (s\<lparr>rob := []\<rparr>);
          s2 = s1\<lparr>rat := (\<lambda>_. - 1)\<rparr>
      in if taken then s2\<lparr>pc := correctPC\<rparr> else s2\<lparr>pc := correctPC\<rparr>)"

text \<open>
  \<open>head.memAddr\<close> in stageCommit: \<open>head\<close> is a ROB entry, and ROB entries have no such
  property, so the expression is \<open>undefined\<close> (\<open>None\<close>). The cache is then accessed at
  \<open>undefined >> 6\<close>, \<open>undefined >> 11\<close>, that is at address 0, and the typed-array store
  at index \<open>undefined / 4 = NaN\<close> writes nothing.
\<close>

definition head_memAddr :: "rob_entry \<Rightarrow> int option" where
  "head_memAddr h = None"

definition addr_ToInt32 :: "int option \<Rightarrow> int" where
  "addr_ToInt32 a = (case a of None \<Rightarrow> 0 | Some x \<Rightarrow> ToInt32 x)"

text \<open>\<open>this.memory[a / 4] = v\<close> on the \<open>Int32Array\<close> of 65536 words.\<close>

definition memory_store :: "int option \<Rightarrow> int \<Rightarrow> (nat \<Rightarrow> int) \<Rightarrow> (nat \<Rightarrow> int)" where
  "memory_store a v m =
     (case a of
        None \<Rightarrow> m
      | Some x \<Rightarrow> if x mod 4 = 0 \<and> 0 \<le> x div 4 \<and> x div 4 < 65536
                  then m(nat (x div 4) := ToInt32 v) else m)"

text \<open>\<open>this.memory[Math.floor(a / 4)] | 0\<close>.\<close>

definition memory_load :: "int \<Rightarrow> (nat \<Rightarrow> int) \<Rightarrow> int" where
  "memory_load a m = (if 0 \<le> a div 4 \<and> a div 4 < 65536 then m (nat (a div 4)) else 0)"

definition regFile_store :: "nat \<Rightarrow> int \<Rightarrow> (nat \<Rightarrow> int) \<Rightarrow> (nat \<Rightarrow> int)" where
  "regFile_store d v rf = (if d < 32 then rf(d := ToInt32 v) else rf)"

definition l1d_access :: "(nat \<Rightarrow> int) \<Rightarrow> int \<Rightarrow> bool \<Rightarrow> sim \<Rightarrow> sim" where
  "l1d_access now addr isWrite s =
     s\<lparr>l1d := snd (access (now (dateNowCalls s)) addr isWrite (l1d s)),
       dateNowCalls := dateNowCalls s + 1\<rparr>"

text \<open>Register commit: the write to the register file and the release of the RAT entry.\<close>

definition write_back :: "rob_entry \<Rightarrow> sim \<Rightarrow> sim" where
  "write_back head s =
     (if r_rd head \<noteq> 0 \<and> r_op head \<noteq> SW \<and> r_op head \<noteq> BEQ \<and> r_op head \<noteq> BNE
      then s\<lparr>regFile := regFile_store (r_rd head) (r_result head) (regFile s),
             rat := (if rat s (r_rd head) = r_robTag head
                     then (rat s)(r_rd head := - 1) else rat s)\<rparr>
      else s)"

text \<open>The part of stageCommit after the branch check: register write, LSQ gate, ROB pop.\<close>

definition commit_retire :: "(nat \<Rightarrow> int) \<Rightarrow> rob_entry \<Rightarrow> sim \<Rightarrow> sim" where
  "commit_retire now head s =
     (let s1 = write_back head s;
          pop = (\<lambda>t. t\<lparr>rob := tl (rob t), instructionsCommitted := instructionsCommitted t + 1\<rparr>)
      in if r_op head = SW \<or> r_op head = LW then
           (case lsq s1 of
              lsqHead # lsqRest \<Rightarrow>
                if l_robTag lsqHead = r_robTag head \<and> l_isMemReady lsqHead then
                  (let s2 = (if r_op head = SW then
                               log (CommitStore (head_memAddr head) (r_result head))
                                 ((l1d_access now (addr_ToInt32 (head_memAddr head)) True s1)
                                    \<lparr>memory := memory_store (head_memAddr head) (r_result head)
                                                 (memory s1)\<rparr>)
                             else s1)
                   in pop (s2\<lparr>lsq := tl (lsq s2)\<rparr>))
                else s1
            | [] \<Rightarrow> s1)
         else pop s1)"

text \<open>The branch bookkeeping of stageCommit: the two counters and the predictor update.\<close>

definition train_predictor :: "rob_entry \<Rightarrow> sim \<Rightarrow> sim" where
  "train_predictor head s =
     (let actualTaken = (r_result head = 1);
          s1 = s\<lparr>branchTotal := branchTotal s + 1\<rparr>;
          s2 = (if actualTaken = r_predictedTaken head
                then s1\<lparr>branchCorrect := branchCorrect s1 + 1\<rparr> else s1)
      in s2\<lparr>predictor := update (r_pc head) actualTaken (predictor s2)\<rparr>)"

definition stageCommit :: "(nat \<Rightarrow> int) \<Rightarrow> sim \<Rightarrow> sim" where
  "stageCommit now s =
     (case rob s of
        [] \<Rightarrow> s
      | head # _ \<Rightarrow>
          if r_isReady head then
            (if r_op head = BEQ \<or> r_op head = BNE then
               (let actualTaken = (r_result head = 1);
                    s3 = train_predictor head s
                in if actualTaken \<noteq> r_predictedTaken head
                   then flushPipeline (r_targetAddr head) actualTaken
                          (log (FlushBranch (r_pc head)) s3)
                   else commit_retire now head s3)
             else commit_retire now head s)
          else s)"

subsection \<open>Execute and broadcast\<close>

text \<open>\<open>xs.find(P)\<close> followed by assignments to the object found: the first match is updated.\<close>

fun update_first :: "('a \<Rightarrow> bool) \<Rightarrow> ('a \<Rightarrow> 'a) \<Rightarrow> 'a list \<Rightarrow> 'a list" where
  "update_first P f [] = []"
| "update_first P f (x # xs) = (if P x then f x # xs else x # update_first P f xs)"

text \<open>Operand capture: \<open>q\<close> is the awaited tag, the result is the new (tag, value) pair.\<close>

definition capture :: "rob_entry list \<Rightarrow> int \<Rightarrow> int \<Rightarrow> int \<times> int" where
  "capture rb q v =
     (if q \<noteq> - 1 then
        (case find (\<lambda>r. r_robTag r = q) rb of
           Some producer \<Rightarrow> if r_isReady producer then (- 1, r_result producer) else (q, v)
         | None \<Rightarrow> (q, v))
      else (q, v))"

text \<open>The \<open>switch\<close> of stageExecute: the value computed, and the state after its effects.\<close>

definition compute_result :: "(nat \<Rightarrow> int) \<Rightarrow> rs_entry \<Rightarrow> instruction \<Rightarrow> sim \<Rightarrow> int \<times> sim" where
  "compute_result now rs ins s =
     (case i_op ins of
        ADD \<Rightarrow> (vj rs + vk rs, s)
      | SUB \<Rightarrow> (vj rs - vk rs, s)
      | ADDI \<Rightarrow> (vj rs + i_imm ins, s)
      | LW \<Rightarrow>
          (let s1 = l1d_access now (i_memAddr ins) False s;
               val = ToInt32 (memory_load (i_memAddr ins) (memory s1))
           in (val, s1\<lparr>lsq := update_first (\<lambda>l. l_robTag l = i_robTag ins)
                                 (\<lambda>l. l\<lparr>l_memAddr := i_memAddr ins, l_isMemReady := True\<rparr>)
                                 (lsq s1)\<rparr>))
      | SW \<Rightarrow>
          (vk rs, s\<lparr>lsq := update_first (\<lambda>l. l_robTag l = i_robTag ins)
                              (\<lambda>l. l\<lparr>l_memAddr := i_memAddr ins, l_value := vk rs,
                                     l_isMemReady := True\<rparr>)
                              (lsq s)\<rparr>)
      | BEQ \<Rightarrow> (if vj rs = vk rs then 1 else 0, s)
      | BNE \<Rightarrow> (if vj rs \<noteq> vk rs then 1 else 0, s)
      | _ \<Rightarrow> (0, s))"

text \<open>The broadcast of a finished instruction to its ROB entry.\<close>

definition broadcast :: "instruction \<Rightarrow> int \<Rightarrow> rob_entry list \<Rightarrow> rob_entry list" where
  "broadcast ins val rb =
     update_first (\<lambda>r. r_robTag r = i_robTag ins)
       (\<lambda>r. (r\<lparr>r_result := val, r_isReady := True\<rparr>)
               \<lparr>r_targetAddr := (if i_op ins = BEQ \<or> i_op ins = BNE
                                 then (if val = 1 then i_pc ins + i_imm ins else i_pc ins + 4)
                                 else r_targetAddr r)\<rparr>)
       rb"

text \<open>
  The block run when the remaining cycles reach zero: \<open>rs\<close> is the station after
  operand capture, \<open>ins\<close> its instruction after the countdown.
\<close>

definition complete_execution ::
  "(nat \<Rightarrow> int) \<Rightarrow> rs_entry \<Rightarrow> instruction \<Rightarrow> sim \<Rightarrow> rs_entry \<times> sim" where
  "complete_execution now rs ins s =
     (let r = compute_result now rs ins s;
          val = fst r;
          s1 = snd r;
          ins3 = ins\<lparr>i_result := val, i_isReady := True\<rparr>;
          s2 = s1\<lparr>rob := broadcast ins3 val (rob s1)\<rparr>
      in (rs\<lparr>inst := ins3, busy := False\<rparr>, log (Exec (i_text ins3) val) s2))"

text \<open>Wake-up of one station: both operands go through \<open>capture\<close>, \<open>qj\<close> first.\<close>

definition capture_operands :: "rob_entry list \<Rightarrow> rs_entry \<Rightarrow> rs_entry" where
  "capture_operands rb rs0 =
     (let cj = capture rb (qj rs0) (vj rs0);
          rs1 = rs0\<lparr>qj := fst cj, vj := snd cj\<rparr>;
          ck = capture rb (qk rs1) (vk rs1)
      in rs1\<lparr>qk := fst ck, vk := snd ck\<rparr>)"

text \<open>
  One cycle of execution of the instruction of station \<open>rs\<close>: the effective address on
  the first cycle of a load or store, then the decrement.
\<close>

definition countdown :: "rs_entry \<Rightarrow> instruction \<Rightarrow> instruction" where
  "countdown rs ins =
     (let ins1 = (if i_executionCyclesLeft ins = i_totalCycles ins
                     \<and> (i_op ins = LW \<or> i_op ins = SW)
                  then ins\<lparr>i_memAddr := vj rs + i_imm ins\<rparr> else ins)
      in ins1\<lparr>i_executionCyclesLeft := i_executionCyclesLeft ins1 - 1\<rparr>)"

text \<open>
  The body of the \<open>forEach\<close> of stageExecute for one station: the station after the
  call, and the simulator state after it (the body does not read the station pools).
\<close>

definition exec_rs :: "(nat \<Rightarrow> int) \<Rightarrow> rs_entry \<Rightarrow> sim \<Rightarrow> rs_entry \<times> sim" where
  "exec_rs now rs0 s =
     (if \<not> busy rs0 then (rs0, s)
      else
        (let ins = inst rs0;
             rs = capture_operands (rob s) rs0
         in if qj rs = - 1 \<and> qk rs = - 1 \<and> \<not> i_isReady ins \<and> i_executionCyclesLeft ins > 0
            then
              (let ins2 = countdown rs ins
               in if i_executionCyclesLeft ins2 = 0 then complete_execution now rs ins2 s
                  else (rs\<lparr>inst := ins2\<rparr>, s))
            else (rs, s)))"

text \<open>
  The \<open>forEach\<close> over \<open>rsALU.concat(rsLS)\<close>: the stations of a pool in order, each
  seeing the state the previous one left.
\<close>

fun exec_pool :: "(nat \<Rightarrow> int) \<Rightarrow> rs_entry list \<Rightarrow> sim \<Rightarrow> rs_entry list \<times> sim" where
  "exec_pool now [] s = ([], s)"
| "exec_pool now (rs # rest) s =
     (let r = exec_rs now rs s; r' = exec_pool now rest (snd r)
      in (fst r # fst r', snd r'))"

definition stageExecute :: "(nat \<Rightarrow> int) \<Rightarrow> sim \<Rightarrow> sim" where
  "stageExecute now s =
     (let a = exec_pool now (rsALU s) s;
          l = exec_pool now (rsLS s) (snd a)
      in (snd l)\<lparr>rsALU := fst a, rsLS := fst l\<rparr>)"

subsection \<open>Fetch and issue\<close>

definition lookup_instruction :: "template list \<Rightarrow> int \<Rightarrow> template option" where
  "lookup_instruction prog a =
     (if 0 \<le> a \<and> a mod 4 = 0 \<and> nat (a div 4) < length prog
      then Some (prog ! nat (a div 4)) else None)"

fun find_free :: "rs_entry list \<Rightarrow> nat option" where
  "find_free [] = None"
| "find_free (r # rs) =
     (if \<not> busy r then Some 0 else map_option Suc (find_free rs))"

text \<open>Renaming of one source register: the (tag, value) pair for the station.\<close>

definition rename_src :: "sim \<Rightarrow> nat \<Rightarrow> int \<times> int" where
  "rename_src s r =
     (if rat s r \<noteq> - 1 then
        (case find (\<lambda>e. r_robTag e = rat s r) (rob s) of
           Some producer \<Rightarrow> if r_isReady producer then (- 1, r_result producer)
                            else (rat s r, 0)
         | None \<Rightarrow> (rat s r, 0))
      else (- 1, regFile s r))"

definition latency_of :: "opcode \<Rightarrow> int" where
  "latency_of opc =
     (if opc = LW \<or> opc = SW
      then (if opc = LW then EXEC_LATENCIES_LOAD else EXEC_LATENCIES_STORE)
      else if opc = BEQ \<or> opc = BNE \<or> opc = JAL \<or> opc = JALR then EXEC_LATENCIES_BRANCH
      else EXEC_LATENCIES_ALU)"

definition set_last_predicted :: "bool \<Rightarrow> rob_entry list \<Rightarrow> rob_entry list" where
  "set_last_predicted pred rb =
     (if rb = [] then rb else butlast rb @ [(last rb)\<lparr>r_predictedTaken := pred\<rparr>])"

text \<open>Step 2 of stageFetchAndIssue: the L1I access, logged when it misses.\<close>

definition fetch_l1i :: "(nat \<Rightarrow> int) \<Rightarrow> sim \<Rightarrow> sim" where
  "fetch_l1i now s =
     (let cacheRes = access (now (dateNowCalls s)) (pc s) False (l1i s);
          s1 = s\<lparr>l1i := snd cacheRes, dateNowCalls := dateNowCalls s + 1\<rparr>
      in if \<not> fst (fst cacheRes) then log (L1IMiss (pc s1)) s1 else s1)"

text \<open>
  Steps 3 and 4 and the latency setup: the instruction instance with its tag and cycle
  counts. \<open>pred\<close> is the value the source assigns to \<open>inst.predictedTaken\<close> in step 6;
  the station holds the same object, so the station sees it.
\<close>

definition make_instruction :: "sim \<Rightarrow> template \<Rightarrow> int \<Rightarrow> bool \<Rightarrow> instruction" where
  "make_instruction s t robTag pred =
     (new_Instruction (pc s) (t_text t) (t_op t) (t_rd t) (t_rs1 t) (t_rs2 t) (t_imm t))
       \<lparr>i_robTag := robTag,
        i_totalCycles := latency_of (t_op t),
        i_executionCyclesLeft := latency_of (t_op t),
        i_predictedTaken := pred\<rparr>"

definition push_lsq :: "instruction \<Rightarrow> sim \<Rightarrow> sim" where
  "push_lsq ins s =
     (if i_op ins = LW \<or> i_op ins = SW
      then s\<lparr>lsq := lsq s @ [\<lparr>l_robTag = i_robTag ins, l_isStore = (i_op ins = SW),
                               l_memAddr = - 1, l_value = 0, l_isMemReady = False\<rparr>]\<rparr>
      else s)"

definition fill_station :: "nat \<Rightarrow> rs_entry \<Rightarrow> sim \<Rightarrow> sim" where
  "fill_station k rs s =
     (if rs_op rs = LW \<or> rs_op rs = SW then s\<lparr>rsLS := (rsLS s)[k := rs]\<rparr>
      else s\<lparr>rsALU := (rsALU s)[k := rs]\<rparr>)"

definition push_rob :: "instruction \<Rightarrow> sim \<Rightarrow> sim" where
  "push_rob ins s =
     s\<lparr>rob := rob s @ [\<lparr>r_robTag = i_robTag ins, r_op = i_op ins, r_rd = i_rd ins,
                         r_pc = i_pc ins, r_instText = i_text ins, r_isReady = False,
                         r_result = 0, r_predictedTaken = False, r_targetAddr = 0\<rparr>]\<rparr>"

definition rename_dest :: "instruction \<Rightarrow> sim \<Rightarrow> sim" where
  "rename_dest ins s =
     (if i_rd ins \<noteq> 0 \<and> i_op ins \<noteq> BEQ \<and> i_op ins \<noteq> BNE \<and> i_op ins \<noteq> SW
      then s\<lparr>rat := (rat s)(i_rd ins := i_robTag ins)\<rparr> else s)"

text \<open>Step 6: the prediction stored in the new ROB entry, and the PC update.\<close>

definition redirect :: "instruction \<Rightarrow> bool \<Rightarrow> sim \<Rightarrow> sim" where
  "redirect ins pred s =
     (if i_op ins = BEQ \<or> i_op ins = BNE then
        (let s1 = s\<lparr>rob := set_last_predicted pred (rob s)\<rparr>
         in if pred
            then log (BranchPrevistoTomado (i_pc ins) (pc s1 + i_imm ins))
                   (s1\<lparr>pc := pc s1 + i_imm ins\<rparr>)
            else s1\<lparr>pc := pc s1 + 4\<rparr>)
      else if i_op ins = JAL then s\<lparr>pc := pc s + i_imm ins\<rparr>
      else s\<lparr>pc := pc s + 4\<rparr>)"

text \<open>
  Steps 2 to 6 for template \<open>t\<close> and the free station at position \<open>k\<close> of its pool. The
  predictor is consulted where the tag is known: nothing between there and step 6 of
  the source changes the predictor or the PC.
\<close>

definition issue_at :: "(nat \<Rightarrow> int) \<Rightarrow> template \<Rightarrow> nat \<Rightarrow> sim \<Rightarrow> sim" where
  "issue_at now t k s =
     (let s2 = fetch_l1i now s;
          robTag = nextRobTag s2;
          s3 = s2\<lparr>nextRobTag := nextRobTag s2 + 1\<rparr>;
          j = rename_src s3 (t_rs1 t);
          k' = rename_src s3 (t_rs2 t);
          pred = (if t_op t = BEQ \<or> t_op t = BNE
                  then predict (predictor s3) (pc s3) else False);
          ins = make_instruction s3 t robTag pred;
          rs = \<lparr>busy = True, inst = ins, rs_op = i_op ins, vj = snd j, vk = snd k',
                qj = fst j, qk = fst k', rs_robTag = robTag\<rparr>
      in log (Issue (i_text ins) robTag)
           (redirect ins pred
             (rename_dest ins
               (push_rob ins
                 (fill_station k rs
                   (push_lsq ins s3))))))"

text \<open>stageFetchAndIssue: \<open>None\<close> is the return value \<open>false\<close> (nothing was changed).\<close>

definition stageFetchAndIssue :: "(nat \<Rightarrow> int) \<Rightarrow> sim \<Rightarrow> sim option" where
  "stageFetchAndIssue now s =
     (if length (rob s) \<ge> robSize then None
      else case lookup_instruction (instructions s) (pc s) of
        None \<Rightarrow> None
      | Some t \<Rightarrow>
         (case find_free (if t_op t = LW \<or> t_op t = SW then rsLS s else rsALU s) of
            None \<Rightarrow> None
          | Some k \<Rightarrow> Some (issue_at now t k s)))"

subsection \<open>One cycle\<close>

text \<open>The issue loop of step: \<open>n\<close> is the number of attempts left (\<open>width - issued\<close>).\<close>

fun issue_loop :: "(nat \<Rightarrow> int) \<Rightarrow> nat \<Rightarrow> sim \<Rightarrow> sim" where
  "issue_loop now 0 s = s"
| "issue_loop now (Suc n) s =
     (case stageFetchAndIssue now s of None \<Rightarrow> s | Some s' \<Rightarrow> issue_loop now n s')"

definition count_busy :: "rs_entry list \<Rightarrow> nat" where
  "count_busy rs = length (filter busy rs)"

definition step :: "(nat \<Rightarrow> int) \<Rightarrow> sim \<Rightarrow> sim" where
  "step now s =
     (if pc s \<ge> int (length (instructions s)) * 4 \<and> rob s = []
      then log ExecucaoFinalizada (s\<lparr>isRunning := False\<rparr>)
      else
        (let s1 = s\<lparr>clock := clock s + 1\<rparr>;
             s2 = stageCommit now s1;
             s3 = stageExecute now s2;
             s4 = issue_loop now width s3
         in s4\<lparr>robOccupationHistory := robOccupationHistory s4 @ [length (rob s4)],
               rsOccupationHistory := rsOccupationHistory s4
                  @ [count_busy (rsALU s4) + count_busy (rsLS s4)]\<rparr>))"

text \<open>A run from reset: a fresh simulator, the program loaded, then \<open>n\<close> calls of step.\<close>

definition reset :: "template list \<Rightarrow> sim" where
  "reset prog = loadProgram (Inr prog) new_Simulator"

fun run :: "(nat \<Rightarrow> int) \<Rightarrow> sim \<Rightarrow> nat \<Rightarrow> sim" where
  "run now s 0 = s"
| "run now s (Suc n) = step now (run now s n)"

section \<open>Auxiliary notions for the properties\<close>

text \<open>
  The counter update in the words of the specification: a saturating increment capped
  at 3, a saturating decrement floored at 0.
\<close>

definition sat_counter :: "bool \<Rightarrow> nat \<Rightarrow> nat" where
  "sat_counter taken c = (if taken then min 3 (c + 1) else c - 1)"

text \<open>What the parser stores for one source line.\<close>

definition decoded :: "string \<Rightarrow> opcode \<Rightarrow> nat \<Rightarrow> nat \<Rightarrow> nat \<Rightarrow> int \<Rightarrow> template" where
  "decoded txt opc d s1 s2 im =
     \<lparr>t_text = txt, t_op = opc, t_rd = d, t_rs1 = s1, t_rs2 = s2, t_imm = im\<rparr>"

text \<open>Two wall clocks: one that stands still over the whole run, one that ticks at every call.\<close>

definition frozen_clock :: "nat \<Rightarrow> int" where
  "frozen_clock k = 1000"

definition ticking_clock :: "nat \<Rightarrow> int" where
  "ticking_clock k = 1000 + int k"

text \<open>
  A taken branch (predicted not taken by the fresh predictor) followed by two loads on
  the wrong path:
  \<^verbatim>\<open>BEQ x0,x0,8 ; LW x1,0(x0) ; LW x2,0(x0) ; ADDI x3,x0,1\<close>
\<close>

definition prog_branch_over_loads :: "template list" where
  "prog_branch_over_loads =
     [decoded ''BEQ x0,x0,8'' BEQ 0 0 0 8, decoded ''LW x1,0(x0)'' LW 1 0 0 0,
      decoded ''LW x2,0(x0)'' LW 2 0 0 0, decoded ''ADDI x3,x0,1'' ADDI 3 0 0 1]"

text \<open>The state in which the third cycle of that program starts its commit stage.\<close>

definition before_flush :: sim where
  "before_flush =
     (run frozen_clock (reset prog_branch_over_loads) 2)
       \<lparr>clock := clock (run frozen_clock (reset prog_branch_over_loads) 2) + 1\<rparr>"

text \<open>\<^verbatim>\<open>ADDI x1,x0,6 ; ADDI x2,x0,3 ; AND x3,x1,x2\<close>\<close>

definition prog_and :: "template list" where
  "prog_and =
     [decoded ''ADDI x1,x0,6'' ADDI 1 0 0 6, decoded ''ADDI x2,x0,3'' ADDI 2 0 0 3,
      decoded ''AND x3,x1,x2'' AND 3 1 2 0]"

text \<open>
  \<^verbatim>\<open>ADDI x2,x0,9 ; BEQ x0,x0,8 ; LW x1,0(x0) ; LW x2,0(x0)\<close>: the branch jumps over
  the first load to the second one.
\<close>

definition prog_stall :: "template list" where
  "prog_stall =
     [decoded ''ADDI x2,x0,9'' ADDI 2 0 0 9, decoded ''BEQ x0,x0,8'' BEQ 0 0 0 8,
      decoded ''LW x1,0(x0)'' LW 1 0 0 0, decoded ''LW x2,0(x0)'' LW 2 0 0 0]"

text \<open>The state in which the seventh cycle of that program starts its commit stage.\<close>

definition stalled_load :: sim where
  "stalled_load =
     (run frozen_clock (reset prog_stall) 6)
       \<lparr>clock := clock (run frozen_clock (reset prog_stall) 6) + 1\<rparr>"

text \<open>\<^verbatim>\<open>ADDI x1,x0,1 ; BNE x1,x0,8 ; ADDI x3,x0,99 ; ADDI x4,x0,7\<close>\<close>

definition prog_mispredict :: "template list" where
  "prog_mispredict =
     [decoded ''ADDI x1,x0,1'' ADDI 1 0 0 1, decoded ''BNE x1,x0,8'' BNE 0 1 0 8,
      decoded ''ADDI x3,x0,99'' ADDI 3 0 0 99, decoded ''ADDI x4,x0,7'' ADDI 4 0 0 7]"

text \<open>The test of stageCommit that leads to a flush: a ready branch at the head of the ROB
  whose outcome differs from the prediction.\<close>

definition mispredicted :: "sim \<Rightarrow> bool" where
  "mispredicted s =
     (case rob s of
        [] \<Rightarrow> False
      | head # _ \<Rightarrow> r_isReady head \<and> (r_op head = BEQ \<or> r_op head = BNE)
                    \<and> (r_result head = 1) \<noteq> r_predictedTaken head)"

text \<open>What the execute stage leaves alone.\<close>

definition exec_frame :: "sim \<Rightarrow> sim \<Rightarrow> bool" where
  "exec_frame s s' =
     (regFile s' = regFile s \<and> rat s' = rat s \<and> pc s' = pc s \<and> memory s' = memory s
      \<and> nextRobTag s' = nextRobTag s \<and> instructionsCommitted s' = instructionsCommitted s
      \<and> instructions s' = instructions s \<and> clock s' = clock s
      \<and> map r_robTag (rob s') = map r_robTag (rob s)
      \<and> map l_robTag (lsq s') = map l_robTag (lsq s))"

text \<open>The ROB entries the commit stage of the next cycle throws away without committing.\<close>

definition flush_discards :: "sim \<Rightarrow> nat" where
  "flush_discards s = (if mispredicted s then length (rob s) else 0)"

text \<open>The number of ROB entries discarded by the flushes of the first \<open>n\<close> cycles.\<close>

fun discarded :: "(nat \<Rightarrow> int) \<Rightarrow> sim \<Rightarrow> nat \<Rightarrow> nat" where
  "discarded now s 0 = 0"
| "discarded now s (Suc n) = discarded now s n + flush_discards (run now s n)"

text \<open>
  Instructions issued since the last loadProgram: stageFetchAndIssue logs one \<open>ISSUE\<close>
  line per instruction it issues, and loadProgram is what empties the log.
\<close>

fun is_issue :: "log_msg \<Rightarrow> bool" where
  "is_issue (Issue txt robTag) = True"
| "is_issue m = False"

definition issued :: "sim \<Rightarrow> nat" where
  "issued s = length (filter (\<lambda>e. is_issue (snd e)) (logs s))"

text \<open>Every LSQ entry carries a tag that was handed out already.\<close>

definition lsq_tags_below :: "sim \<Rightarrow> bool" where
  "lsq_tags_below s = list_all (\<lambda>t. t < nextRobTag s) (map l_robTag (lsq s))"

text \<open>The busy stations of a pool hold instructions tagged \<open>N\<close> or later.\<close>

definition station_tags_from :: "int \<Rightarrow> rs_entry list \<Rightarrow> bool" where
  "station_tags_from N rss = list_all (\<lambda>rs. busy rs \<longrightarrow> N \<le> i_robTag (inst rs)) rss"

text \<open>
  The situation a flush leaves behind: the LSQ starts with the entries \<open>L\<close>, all tagged
  below \<open>N\<close>, while everything in flight is tagged \<open>N\<close> or later.
\<close>

definition stale_lsq :: "lsq_entry list \<Rightarrow> int \<Rightarrow> sim \<Rightarrow> bool" where
  "stale_lsq L N s =
     (L \<noteq> [] \<and> take (length L) (lsq s) = L
      \<and> list_all (\<lambda>t. t < N) (map l_robTag L)
      \<and> list_all (\<lambda>t. N \<le> t) (map r_robTag (rob s))
      \<and> station_tags_from N (rsALU s) \<and> station_tags_from N (rsLS s)
      \<and> N \<le> nextRobTag s)"

text \<open>Views of a state, for evaluating a run once and reading several fields off it.\<close>

definition count_view :: "sim \<Rightarrow> nat \<times> nat \<times> int" where
  "count_view s = (instructionsCommitted s, length (rob s), nextRobTag s)"

definition issue_view :: "sim \<Rightarrow> nat \<times> nat \<times> nat" where
  "issue_view s = (instructionsCommitted s, length (rob s), issued s)"

definition queue_view :: "sim \<Rightarrow> rob_entry list \<times> int list \<times> int \<times> nat" where
  "queue_view s = (rob s, map l_robTag (lsq s), pc s, instructionsCommitted s)"

definition regs_view :: "sim \<Rightarrow> int list \<times> int list" where
  "regs_view s = (map (regFile s) [0..<4], map (rat s) [0..<4])"

text \<open>
  \<^verbatim>\<open>BEQ x0,x0,8 ; LW x1,0(x0) ; SW x0,0(x0)\<close>: the branch jumps over the load to
  the store.
\<close>

definition prog_store_after_flush :: "template list" where
  "prog_store_after_flush =
     [decoded ''BEQ x0,x0,8'' BEQ 0 0 0 8, decoded ''LW x1,0(x0)'' LW 1 0 0 0,
      decoded ''SW x0,0(x0)'' SW 0 0 0 0]"

text \<open>The state in which the fifth cycle of that program starts its commit stage.\<close>

definition stalled_store :: sim where
  "stalled_store =
     (run frozen_clock (reset prog_store_after_flush) 4)
       \<lparr>clock := clock (run frozen_clock (reset prog_store_after_flush) 4) + 1\<rparr>"

text \<open>
  A station finishes in this call of the \<open>forEach\<close> body: it is busy, both operands are
  there after capture, and one cycle of execution is left.
\<close>

definition completes :: "rs_entry \<Rightarrow> sim \<Rightarrow> bool" where
  "completes rs s =
     (busy rs \<and> qj (capture_operands (rob s) rs) = - 1
      \<and> qk (capture_operands (rob s) rs) = - 1
      \<and> \<not> i_isReady (inst rs) \<and> i_executionCyclesLeft (inst rs) = 1)"

text \<open>The branch condition on the captured operands: equal for BEQ, different otherwise.\<close>

definition branch_outcome :: "rs_entry \<Rightarrow> sim \<Rightarrow> bool" where
  "branch_outcome rs s =
     (if i_op (inst rs) = BEQ
      then vj (capture_operands (rob s) rs) = vk (capture_operands (rob s) rs)
      else vj (capture_operands (rob s) rs) \<noteq> vk (capture_operands (rob s) rs))"

text \<open>
  Three moments of the run of \<open>prog_mispredict\<close>: the start of the second cycle, the
  moment of that cycle in which the station of the branch is visited (the station of
  the first ADDI has just broadcast), and the start of the fourth cycle.
\<close>

definition branch_issued :: sim where
  "branch_issued =
     (run frozen_clock (reset prog_mispredict) 1)
       \<lparr>clock := clock (run frozen_clock (reset prog_mispredict) 1) + 1\<rparr>"

definition branch_operands_ready :: sim where
  "branch_operands_ready = snd (exec_rs frozen_clock (rsALU branch_issued ! 0) branch_issued)"

definition branch_at_head :: sim where
  "branch_at_head =
     (run frozen_clock (reset prog_mispredict) 3)
       \<lparr>clock := clock (run frozen_clock (reset prog_mispredict) 3) + 1\<rparr>"

text \<open>
  Five loads, three of them from address 0 and two from addresses that fall into the
  same cache set (0) with other tags:
  \<^verbatim>\<open>LW x1,0(x0) ; LW x2,2048(x0) ; LW x3,0(x0) ; LW x4,4096(x0) ; LW x5,0(x0)\<close>
\<close>

definition prog_loads :: "template list" where
  "prog_loads =
     [decoded ''LW x1,0(x0)'' LW 1 0 0 0, decoded ''LW x2,2048(x0)'' LW 2 0 0 2048,
      decoded ''LW x3,0(x0)'' LW 3 0 0 0, decoded ''LW x4,4096(x0)'' LW 4 0 0 4096,
      decoded ''LW x5,0(x0)'' LW 5 0 0 0]"

definition l1d_counters :: "sim \<Rightarrow> nat \<times> nat \<times> nat" where
  "l1d_counters s = (accessCount (l1d s), hitCount (l1d s), missCount (l1d s))"

section \<open>Properties\<close>

subsection \<open>Bit-level facts\<close>

lemma and_0x3FF: "and (k::int) 0x3FF = k mod 2 ^ 10"
proof -
  have "and k (mask 10) = k mod 2 ^ 10"
    by (simp only: take_bit_eq_mask [symmetric] take_bit_eq_mod)
  moreover have "(mask 10 :: int) = 0x3FF"
    by (simp add: mask_eq_exp_minus_1)
  ultimately show ?thesis by simp
qed

lemma pht_index_less: "pht_index p a < 1024"
  by (simp add: pht_index_def and_0x3FF nat_less_iff)

lemma ghr_update: "ghr (update a t p) = (2 * ghr p + (if t then 1 else 0)) mod 2 ^ 10"
  by (simp add: update_def Let_def and_0x3FF push_bit_eq_mult or_one_eq mult.commute)

lemma pht_update:
  "pht (update a t p) =
     (pht p)(pht_index p a :=
        (if t then (if pht p (pht_index p a) < 3 then pht p (pht_index p a) + 1
                    else pht p (pht_index p a))
         else (if pht p (pht_index p a) > 0 then pht p (pht_index p a) - 1
               else pht p (pht_index p a))))"
  by (simp add: update_def Let_def)

subsection \<open>The gshare predictor\<close>

text \<open>
  Claim C6. In a predictor whose counters are two-bit values, \<open>predict\<close> answers taken
  exactly when the counter at index \<open>(pc XOR GHR) & 0x3FF\<close> is at least 2; \<open>update\<close>
  replaces that counter, and no other, by its saturating increment (capped at 3) or
  decrement (floored at 0), then shifts the outcome into the history register from the
  least significant bit and keeps ten bits of it; every counter is again at most 3.
\<close>

theorem gshare_predictor_spec:
  assumes "\<forall>i. pht p i \<le> 3"
  shows "pht_index p a = nat (and (xor a (ghr p)) 0x3FF) \<and> pht_index p a < 1024
     \<and> predict p a = (2 \<le> pht p (pht_index p a))
     \<and> pht (update a taken p)
         = (pht p)(pht_index p a := sat_counter taken (pht p (pht_index p a)))
     \<and> ghr (update a taken p) = (2 * ghr p + (if taken then 1 else 0)) mod 2 ^ 10
     \<and> 0 \<le> ghr (update a taken p) \<and> ghr (update a taken p) < 2 ^ 10
     \<and> (\<forall>i. pht (update a taken p) i \<le> 3)"
proof -
  have c: "pht p (pht_index p a) \<le> 3" using assms by blast
  have 1: "pht (update a taken p)
             = (pht p)(pht_index p a := sat_counter taken (pht p (pht_index p a)))"
    using c by (auto simp: pht_update sat_counter_def)
  have 2: "sat_counter taken (pht p (pht_index p a)) \<le> 3"
    using c unfolding sat_counter_def by (cases taken) auto
  have 3: "\<forall>i. pht (update a taken p) i \<le> 3"
    using assms 2 by (simp add: 1)
  show ?thesis
    using 1 3 by (simp add: pht_index_less ghr_update predict_def) (simp add: pht_index_def)
qed

theorem gshare_predictor_spec_witness:
  "(\<forall>i. pht new_GsharePredictor i \<le> 3)
   \<and> pht_index new_GsharePredictor 4 = 4
   \<and> \<not> predict new_GsharePredictor 4
   \<and> pht (update 4 True new_GsharePredictor) 4 = 2
   \<and> predict (update 4 True new_GsharePredictor) 5
   \<and> ghr (update 4 True new_GsharePredictor) = 1"
proof -
  have h: "\<forall>i. pht new_GsharePredictor i \<le> 3"
    by (simp add: new_GsharePredictor_def)
  have i4: "pht_index new_GsharePredictor 4 = 4"
    by (simp add: pht_index_def new_GsharePredictor_def)
  have i5: "pht_index (update 4 True new_GsharePredictor) 5 = 4"
    by (simp add: pht_index_def update_def new_GsharePredictor_def Let_def)
  from gshare_predictor_spec [OF h, of 4 True]
  have a: "pht (update 4 True new_GsharePredictor)
             = (pht new_GsharePredictor)(4 := sat_counter True (pht new_GsharePredictor 4))"
    and b: "ghr (update 4 True new_GsharePredictor)
             = (2 * ghr new_GsharePredictor + 1) mod 2 ^ 10"
    and c: "predict new_GsharePredictor 4 = (2 \<le> pht new_GsharePredictor 4)"
    by (simp_all add: i4)
  show ?thesis
    using h a b c i4 i5 by (simp add: predict_def sat_counter_def new_GsharePredictor_def)
qed

subsection \<open>loadProgram\<close>

lemma loadProgram_fields:
  "pc (loadProgram src s) = 0"
  "memory (loadProgram src s) = (\<lambda>_. 0)"
  "regFile (loadProgram src s) = (\<lambda>_. 0)"
  "rat (loadProgram src s) = (\<lambda>_. - 1)"
  "rob (loadProgram src s) = []"
  "rsALU (loadProgram src s) = replicate 8 free_rs"
  "rsLS (loadProgram src s) = replicate 4 free_rs"
  "clock (loadProgram src s) = 0"
  "instructionsCommitted (loadProgram src s) = 0"
  "logs (loadProgram src s) = (case src of Inl _ \<Rightarrow> [] | Inr _ \<Rightarrow> [(0, ProgramaCarregado)])"
  "lsq (loadProgram src s) = lsq s"
  "nextRobTag (loadProgram src s) = nextRobTag s"
  "predictor (loadProgram src s) = predictor s"
  "l1i (loadProgram src s) = l1i s"
  "l1d (loadProgram src s) = l1d s"
  "robOccupationHistory (loadProgram src s) = robOccupationHistory s"
  "rsOccupationHistory (loadProgram src s) = rsOccupationHistory s"
  by (cases src; simp add: loadProgram_def initRS_def log_def Let_def)+

text \<open>
  Claim C10. loadProgram resets the PC, main memory, the register file, the RAT, the
  ROB, both reservation-station pools, the clock, the committed count and the log (which
  then holds the one message of a completed load), and leaves the LSQ, the next ROB tag,
  the branch predictor, both caches and the two occupancy histories as they were.
\<close>

theorem loadProgram_frame:
  "pc (loadProgram src s) = 0
   \<and> memory (loadProgram src s) = (\<lambda>_. 0)
   \<and> regFile (loadProgram src s) = (\<lambda>_. 0)
   \<and> rat (loadProgram src s) = (\<lambda>_. - 1)
   \<and> rob (loadProgram src s) = []
   \<and> rsALU (loadProgram src s) = replicate 8 free_rs
   \<and> rsLS (loadProgram src s) = replicate 4 free_rs
   \<and> clock (loadProgram src s) = 0
   \<and> instructionsCommitted (loadProgram src s) = 0
   \<and> logs (loadProgram src s) = (case src of Inl _ \<Rightarrow> [] | Inr _ \<Rightarrow> [(0, ProgramaCarregado)])
   \<and> lsq (loadProgram src s) = lsq s
   \<and> nextRobTag (loadProgram src s) = nextRobTag s
   \<and> predictor (loadProgram src s) = predictor s
   \<and> l1i (loadProgram src s) = l1i s
   \<and> l1d (loadProgram src s) = l1d s
   \<and> robOccupationHistory (loadProgram src s) = robOccupationHistory s
   \<and> rsOccupationHistory (loadProgram src s) = rsOccupationHistory s"
  by (simp add: loadProgram_fields)

subsection \<open>Stage by stage: what each stage changes\<close>

lemma exec_frame_refl: "exec_frame s s"
  by (simp add: exec_frame_def)

lemma exec_frame_trans: "exec_frame s s' \<Longrightarrow> exec_frame s' s'' \<Longrightarrow> exec_frame s s''"
  by (simp add: exec_frame_def)

lemma map_update_first:
  assumes "\<And>x. g (f x) = g x"
  shows "map g (update_first P f xs) = map g xs"
  using assms by (induction xs) auto

lemma take_update_first:
  assumes "\<forall>x \<in> set (take k xs). \<not> P x"
  shows "take k (update_first P f xs) = take k xs"
  using assms
proof (induction xs arbitrary: k)
  case Nil
  then show ?case by simp
next
  case (Cons x xs)
  then show ?case by (cases k) auto
qed

lemma l1d_access_fields:
  "regFile (l1d_access now a w s) = regFile s" "rat (l1d_access now a w s) = rat s"
  "pc (l1d_access now a w s) = pc s" "memory (l1d_access now a w s) = memory s"
  "nextRobTag (l1d_access now a w s) = nextRobTag s"
  "instructionsCommitted (l1d_access now a w s) = instructionsCommitted s"
  "instructions (l1d_access now a w s) = instructions s"
  "clock (l1d_access now a w s) = clock s"
  "rob (l1d_access now a w s) = rob s" "lsq (l1d_access now a w s) = lsq s"
  "rsALU (l1d_access now a w s) = rsALU s" "rsLS (l1d_access now a w s) = rsLS s"
  "logs (l1d_access now a w s) = logs s"
  by (simp_all add: l1d_access_def)

lemma log_fields:
  "rob (log m s) = rob s" "lsq (log m s) = lsq s" "regFile (log m s) = regFile s"
  "rat (log m s) = rat s" "memory (log m s) = memory s" "pc (log m s) = pc s"
  "nextRobTag (log m s) = nextRobTag s"
  "instructionsCommitted (log m s) = instructionsCommitted s"
  "instructions (log m s) = instructions s" "predictor (log m s) = predictor s"
  "rsALU (log m s) = rsALU s" "rsLS (log m s) = rsLS s" "clock (log m s) = clock s"
  "l1d (log m s) = l1d s" "l1i (log m s) = l1i s" "branchTotal (log m s) = branchTotal s"
  "dateNowCalls (log m s) = dateNowCalls s"
  by (simp_all add: log_def)

lemma compute_result_frame: "exec_frame s (snd (compute_result now rs ins s))"
  by (cases "i_op ins")
     (simp_all add: compute_result_def exec_frame_def Let_def l1d_access_fields map_update_first)

lemma compute_result_rob: "rob (snd (compute_result now rs ins s)) = rob s"
  by (cases "i_op ins") (simp_all add: compute_result_def Let_def l1d_access_fields)

lemma compute_result_lsq_take:
  assumes "\<forall>l \<in> set (take k (lsq s)). l_robTag l \<noteq> i_robTag ins"
  shows "take k (lsq (snd (compute_result now rs ins s))) = take k (lsq s)"
  using assms
  by (cases "i_op ins")
     (simp_all add: compute_result_def Let_def l1d_access_fields take_update_first)

lemma broadcast_tags: "map r_robTag (broadcast ins val rb) = map r_robTag rb"
  by (simp add: broadcast_def map_update_first)

lemma complete_execution_frame: "exec_frame s (snd (complete_execution now rs ins s))"
  using compute_result_frame [of s now rs ins]
  by (simp add: complete_execution_def Let_def exec_frame_def log_fields broadcast_tags)

lemma complete_execution_lsq_take:
  assumes "\<forall>l \<in> set (take k (lsq s)). l_robTag l \<noteq> i_robTag ins"
  shows "take k (lsq (snd (complete_execution now rs ins s))) = take k (lsq s)"
  using compute_result_lsq_take [OF assms, of now rs]
  by (simp add: complete_execution_def Let_def log_fields)

lemma complete_execution_station:
  "i_robTag (inst (fst (complete_execution now rs ins s))) = i_robTag ins"
  "\<not> busy (fst (complete_execution now rs ins s))"
  by (simp_all add: complete_execution_def Let_def)

lemma capture_operands_station:
  "inst (capture_operands rb rs) = inst rs" "busy (capture_operands rb rs) = busy rs"
  by (simp_all add: capture_operands_def Let_def)

lemma countdown_robTag: "i_robTag (countdown rs ins) = i_robTag ins"
  by (simp add: countdown_def Let_def)

lemma exec_rs_cases:
  "exec_rs now rs s = (rs, s) \<and> \<not> busy rs
   \<or> busy rs \<and> exec_rs now rs s = (capture_operands (rob s) rs, s)
   \<or> busy rs \<and> exec_rs now rs s =
        ((capture_operands (rob s) rs)
           \<lparr>inst := countdown (capture_operands (rob s) rs) (inst rs)\<rparr>, s)
   \<or> busy rs \<and> exec_rs now rs s =
        complete_execution now (capture_operands (rob s) rs)
          (countdown (capture_operands (rob s) rs) (inst rs)) s"
  by (simp add: exec_rs_def Let_def)

lemma exec_rs_frame: "exec_frame s (snd (exec_rs now rs s))"
  using exec_rs_cases [of now rs s] complete_execution_frame
  by (auto simp: exec_frame_refl)

lemma exec_rs_station:
  "i_robTag (inst (fst (exec_rs now rs s))) = i_robTag (inst rs)
   \<and> (busy (fst (exec_rs now rs s)) \<longrightarrow> busy rs)"
  using exec_rs_cases [of now rs s]
  by (auto simp: complete_execution_station capture_operands_station countdown_robTag)

lemma exec_rs_lsq_take:
  assumes "busy rs \<longrightarrow> (\<forall>l \<in> set (take k (lsq s)). l_robTag l \<noteq> i_robTag (inst rs))"
  shows "take k (lsq (snd (exec_rs now rs s))) = take k (lsq s)"
  using exec_rs_cases [of now rs s] assms
  by (auto simp: complete_execution_lsq_take countdown_robTag)

lemma set_last_predicted_tags: "map r_robTag (set_last_predicted b rb) = map r_robTag rb"
proof (cases "rb = []")
  case True
  then show ?thesis by (simp add: set_last_predicted_def)
next
  case False
  then have "map r_robTag rb = map r_robTag (butlast rb) @ [r_robTag (last rb)]"
    by (metis append_butlast_last_id list.simps(8,9) map_append)
  with False show ?thesis by (simp add: set_last_predicted_def)
qed

lemma fetch_l1i_fields:
  "regFile (fetch_l1i now s) = regFile s" "rat (fetch_l1i now s) = rat s"
  "pc (fetch_l1i now s) = pc s" "memory (fetch_l1i now s) = memory s"
  "nextRobTag (fetch_l1i now s) = nextRobTag s"
  "instructionsCommitted (fetch_l1i now s) = instructionsCommitted s"
  "instructions (fetch_l1i now s) = instructions s"
  "clock (fetch_l1i now s) = clock s"
  "rob (fetch_l1i now s) = rob s" "lsq (fetch_l1i now s) = lsq s"
  "rsALU (fetch_l1i now s) = rsALU s" "rsLS (fetch_l1i now s) = rsLS s"
  "predictor (fetch_l1i now s) = predictor s"
  by (simp_all add: fetch_l1i_def Let_def log_def)

lemma push_lsq_fields:
  "regFile (push_lsq ins s) = regFile s" "rat (push_lsq ins s) = rat s"
  "pc (push_lsq ins s) = pc s" "memory (push_lsq ins s) = memory s"
  "nextRobTag (push_lsq ins s) = nextRobTag s"
  "instructionsCommitted (push_lsq ins s) = instructionsCommitted s"
  "instructions (push_lsq ins s) = instructions s"
  "clock (push_lsq ins s) = clock s"
  "rob (push_lsq ins s) = rob s"
  "rsALU (push_lsq ins s) = rsALU s" "rsLS (push_lsq ins s) = rsLS s"
  by (simp_all add: push_lsq_def)

lemma fill_station_fields:
  "regFile (fill_station k rs s) = regFile s" "rat (fill_station k rs s) = rat s"
  "pc (fill_station k rs s) = pc s" "memory (fill_station k rs s) = memory s"
  "nextRobTag (fill_station k rs s) = nextRobTag s"
  "instructionsCommitted (fill_station k rs s) = instructionsCommitted s"
  "instructions (fill_station k rs s) = instructions s"
  "clock (fill_station k rs s) = clock s"
  "rob (fill_station k rs s) = rob s" "lsq (fill_station k rs s) = lsq s"
  by (simp_all add: fill_station_def)

lemma push_rob_fields:
  "regFile (push_rob ins s) = regFile s" "rat (push_rob ins s) = rat s"
  "pc (push_rob ins s) = pc s" "memory (push_rob ins s) = memory s"
  "nextRobTag (push_rob ins s) = nextRobTag s"
  "instructionsCommitted (push_rob ins s) = instructionsCommitted s"
  "instructions (push_rob ins s) = instructions s"
  "clock (push_rob ins s) = clock s"
  "lsq (push_rob ins s) = lsq s"
  "rsALU (push_rob ins s) = rsALU s" "rsLS (push_rob ins s) = rsLS s"
  "map r_robTag (rob (push_rob ins s)) = map r_robTag (rob s) @ [i_robTag ins]"
  by (simp_all add: push_rob_def)

lemma rename_dest_fields:
  "regFile (rename_dest ins s) = regFile s" "rat (rename_dest ins s) 0 = rat s 0"
  "pc (rename_dest ins s) = pc s" "memory (rename_dest ins s) = memory s"
  "nextRobTag (rename_dest ins s) = nextRobTag s"
  "instructionsCommitted (rename_dest ins s) = instructionsCommitted s"
  "instructions (rename_dest ins s) = instructions s"
  "clock (rename_dest ins s) = clock s"
  "rob (rename_dest ins s) = rob s" "lsq (rename_dest ins s) = lsq s"
  "rsALU (rename_dest ins s) = rsALU s" "rsLS (rename_dest ins s) = rsLS s"
  by (simp_all add: rename_dest_def)

lemma redirect_fields:
  "regFile (redirect ins b s) = regFile s" "rat (redirect ins b s) = rat s"
  "memory (redirect ins b s) = memory s"
  "nextRobTag (redirect ins b s) = nextRobTag s"
  "instructionsCommitted (redirect ins b s) = instructionsCommitted s"
  "instructions (redirect ins b s) = instructions s"
  "clock (redirect ins b s) = clock s"
  "lsq (redirect ins b s) = lsq s"
  "rsALU (redirect ins b s) = rsALU s" "rsLS (redirect ins b s) = rsLS s"
  "map r_robTag (rob (redirect ins b s)) = map r_robTag (rob s)"
  by (simp_all add: redirect_def Let_def log_def set_last_predicted_tags)

lemmas issue_fields = fetch_l1i_fields push_lsq_fields fill_station_fields push_rob_fields
  rename_dest_fields redirect_fields log_fields

lemma make_instruction_fields:
  "i_robTag (make_instruction s t n b) = n" "i_op (make_instruction s t n b) = t_op t"
  "i_rd (make_instruction s t n b) = t_rd t"
  by (simp_all add: make_instruction_def new_Instruction_def)

lemma issue_at_basic:
  "regFile (issue_at now t k s) = regFile s \<and> memory (issue_at now t k s) = memory s
   \<and> instructionsCommitted (issue_at now t k s) = instructionsCommitted s
   \<and> instructions (issue_at now t k s) = instructions s
   \<and> clock (issue_at now t k s) = clock s
   \<and> nextRobTag (issue_at now t k s) = nextRobTag s + 1
   \<and> rat (issue_at now t k s) 0 = rat s 0
   \<and> map r_robTag (rob (issue_at now t k s)) = map r_robTag (rob s) @ [nextRobTag s]"
  by (simp add: issue_at_def Let_def issue_fields make_instruction_fields)

lemma issue_at_lsq:
  "lsq (issue_at now t k s) = lsq s
   \<or> (\<exists>e. l_robTag e = nextRobTag s \<and> lsq (issue_at now t k s) = lsq s @ [e])"
  by (simp add: issue_at_def Let_def issue_fields make_instruction_fields push_lsq_def)

lemma flushPipeline_fields:
  "rob (flushPipeline a t s) = []"
  "rsALU (flushPipeline a t s) = replicate 8 free_rs"
  "rsLS (flushPipeline a t s) = replicate 4 free_rs"
  "rat (flushPipeline a t s) = (\<lambda>_. - 1)"
  "pc (flushPipeline a t s) = a"
  "regFile (flushPipeline a t s) = regFile s"
  "lsq (flushPipeline a t s) = lsq s"
  "nextRobTag (flushPipeline a t s) = nextRobTag s"
  "instructionsCommitted (flushPipeline a t s) = instructionsCommitted s"
  "memory (flushPipeline a t s) = memory s"
  "instructions (flushPipeline a t s) = instructions s"
  "predictor (flushPipeline a t s) = predictor s"
  "branchTotal (flushPipeline a t s) = branchTotal s"
  "l1d (flushPipeline a t s) = l1d s"
  "l1i (flushPipeline a t s) = l1i s"
  "clock (flushPipeline a t s) = clock s"
  by (simp_all add: flushPipeline_def initRS_def Let_def)

lemma write_back_fields:
  "rob (write_back h s) = rob s" "lsq (write_back h s) = lsq s"
  "memory (write_back h s) = memory s" "pc (write_back h s) = pc s"
  "nextRobTag (write_back h s) = nextRobTag s"
  "instructionsCommitted (write_back h s) = instructionsCommitted s"
  "instructions (write_back h s) = instructions s" "clock (write_back h s) = clock s"
  "rsALU (write_back h s) = rsALU s" "rsLS (write_back h s) = rsLS s"
  "l1d (write_back h s) = l1d s" "l1i (write_back h s) = l1i s"
  "predictor (write_back h s) = predictor s" "logs (write_back h s) = logs s"
  "regFile (write_back h s) 0 = regFile s 0"
  by (simp_all add: write_back_def regFile_store_def)

lemma write_back_rat0: "rat s 0 = - 1 \<Longrightarrow> rat (write_back h s) 0 = - 1"
  by (simp add: write_back_def)

lemma write_back_id: "r_op h = SW \<or> r_rd h = 0 \<Longrightarrow> write_back h s = s"
  by (auto simp: write_back_def)

lemma commit_retire_cases:
  "commit_retire now head s = write_back head s
     \<and> (r_op head = SW \<or> r_op head = LW)
     \<and> (lsq s = [] \<or> l_robTag (hd (lsq s)) \<noteq> r_robTag head \<or> \<not> l_isMemReady (hd (lsq s)))
   \<or> commit_retire now head s =
        (write_back head s)\<lparr>rob := tl (rob s),
                            instructionsCommitted := instructionsCommitted s + 1\<rparr>
     \<and> r_op head \<noteq> SW \<and> r_op head \<noteq> LW
   \<or> commit_retire now head s =
        (write_back head s)\<lparr>lsq := tl (lsq s), rob := tl (rob s),
                            instructionsCommitted := instructionsCommitted s + 1\<rparr>
     \<and> r_op head = LW \<and> lsq s \<noteq> [] \<and> l_robTag (hd (lsq s)) = r_robTag head
     \<and> l_isMemReady (hd (lsq s))
   \<or> commit_retire now head s =
        (log (CommitStore (head_memAddr head) (r_result head))
           (l1d_access now 0 True (write_back head s)))
          \<lparr>lsq := tl (lsq s), rob := tl (rob s),
           instructionsCommitted := instructionsCommitted s + 1\<rparr>
     \<and> r_op head = SW \<and> lsq s \<noteq> [] \<and> l_robTag (hd (lsq s)) = r_robTag head
     \<and> l_isMemReady (hd (lsq s))"
  unfolding commit_retire_def Let_def
  by (cases "lsq s")
     (auto simp: write_back_fields log_fields l1d_access_fields head_memAddr_def
        addr_ToInt32_def memory_store_def log_def l1d_access_def)

lemma train_predictor_fields:
  "rob (train_predictor h s) = rob s" "lsq (train_predictor h s) = lsq s"
  "memory (train_predictor h s) = memory s" "pc (train_predictor h s) = pc s"
  "nextRobTag (train_predictor h s) = nextRobTag s"
  "instructionsCommitted (train_predictor h s) = instructionsCommitted s"
  "instructions (train_predictor h s) = instructions s"
  "clock (train_predictor h s) = clock s"
  "rsALU (train_predictor h s) = rsALU s" "rsLS (train_predictor h s) = rsLS s"
  "l1d (train_predictor h s) = l1d s" "l1i (train_predictor h s) = l1i s"
  "regFile (train_predictor h s) = regFile s" "rat (train_predictor h s) = rat s"
  "logs (train_predictor h s) = logs s"
  "predictor (train_predictor h s) = update (r_pc h) (r_result h = 1) (predictor s)"
  "branchTotal (train_predictor h s) = branchTotal s + 1"
  by (simp_all add: train_predictor_def Let_def)

lemma stageCommit_cases:
  "stageCommit now s = s \<and> (rob s = [] \<or> \<not> r_isReady (hd (rob s)))
   \<or> mispredicted s \<and> stageCommit now s =
        flushPipeline (r_targetAddr (hd (rob s))) (r_result (hd (rob s)) = 1)
          (log (FlushBranch (r_pc (hd (rob s)))) (train_predictor (hd (rob s)) s))
   \<or> \<not> mispredicted s \<and> rob s \<noteq> [] \<and> r_isReady (hd (rob s))
       \<and> (r_op (hd (rob s)) = BEQ \<or> r_op (hd (rob s)) = BNE)
       \<and> stageCommit now s = commit_retire now (hd (rob s)) (train_predictor (hd (rob s)) s)
   \<or> \<not> mispredicted s \<and> rob s \<noteq> [] \<and> r_isReady (hd (rob s))
       \<and> r_op (hd (rob s)) \<noteq> BEQ \<and> r_op (hd (rob s)) \<noteq> BNE
       \<and> stageCommit now s = commit_retire now (hd (rob s)) s"
  by (cases "rob s") (auto simp: stageCommit_def mispredicted_def Let_def)

subsubsection \<open>Commit\<close>

lemma commit_retire_unchanged:
  "nextRobTag (commit_retire now h s) = nextRobTag s
   \<and> instructions (commit_retire now h s) = instructions s
   \<and> clock (commit_retire now h s) = clock s
   \<and> regFile (commit_retire now h s) 0 = regFile s 0
   \<and> rsALU (commit_retire now h s) = rsALU s
   \<and> rsLS (commit_retire now h s) = rsLS s"
  using commit_retire_cases [of now h s]
  by (elim disjE conjE) (simp_all add: write_back_fields log_fields l1d_access_fields)

lemma commit_retire_rat0:
  assumes "rat s 0 = - 1"
  shows "rat (commit_retire now h s) 0 = - 1"
  using commit_retire_cases [of now h s] write_back_rat0 [OF assms, of h]
  by (elim disjE conjE) (simp_all add: log_def l1d_access_def)

lemma commit_retire_count:
  assumes "rob s \<noteq> []"
  shows "instructionsCommitted (commit_retire now h s) + length (rob (commit_retire now h s))
           = instructionsCommitted s + length (rob s)"
  using commit_retire_cases [of now h s] assms
  by (elim disjE conjE) (simp_all add: write_back_fields log_fields l1d_access_fields)

lemma stageCommit_unchanged:
  "nextRobTag (stageCommit now s) = nextRobTag s
   \<and> instructions (stageCommit now s) = instructions s
   \<and> clock (stageCommit now s) = clock s
   \<and> regFile (stageCommit now s) 0 = regFile s 0"
  using stageCommit_cases [of now s]
  by (elim disjE conjE) (simp_all add: flushPipeline_fields log_fields train_predictor_fields commit_retire_unchanged)

lemma stageCommit_rat0:
  assumes "rat s 0 = - 1"
  shows "rat (stageCommit now s) 0 = - 1"
  using stageCommit_cases [of now s] assms
  by (elim disjE conjE) (simp_all add: flushPipeline_fields commit_retire_rat0 train_predictor_fields)

lemma mispredicted_iff:
  "mispredicted s =
     (rob s \<noteq> [] \<and> r_isReady (hd (rob s))
      \<and> (r_op (hd (rob s)) = BEQ \<or> r_op (hd (rob s)) = BNE)
      \<and> (r_result (hd (rob s)) = 1) \<noteq> r_predictedTaken (hd (rob s)))"
  by (cases "rob s") (simp_all add: mispredicted_def)

lemma stageCommit_count:
  "instructionsCommitted (stageCommit now s) + length (rob (stageCommit now s))
     + flush_discards s = instructionsCommitted s + length (rob s)"
  using stageCommit_cases [of now s]
    commit_retire_count [of s now "hd (rob s)"]
    commit_retire_count [of "train_predictor (hd (rob s)) s" now "hd (rob s)"]
  by (elim disjE conjE)
     (simp_all add: flush_discards_def flushPipeline_fields log_fields train_predictor_fields
        mispredicted_iff)

subsubsection \<open>Execute\<close>

lemma exec_pool_frame: "exec_frame s (snd (exec_pool now rss s))"
proof (induction rss arbitrary: s)
  case Nil
  then show ?case by (simp add: exec_frame_refl)
next
  case (Cons rs rss)
  show ?case
    using exec_frame_trans [OF exec_rs_frame [of s now rs] Cons [of "snd (exec_rs now rs s)"]]
    by (simp add: Let_def)
qed

lemma stageExecute_frame: "exec_frame s (stageExecute now s)"
proof -
  have "exec_frame s (snd (exec_pool now (rsLS s) (snd (exec_pool now (rsALU s) s))))"
    using exec_frame_trans [OF exec_pool_frame exec_pool_frame] .
  then show ?thesis by (simp add: stageExecute_def Let_def exec_frame_def)
qed

subsubsection \<open>Issue\<close>

lemma issue_some:
  assumes "stageFetchAndIssue now s = Some s'"
  shows "\<exists>t k. s' = issue_at now t k s"
  using assms by (auto simp: stageFetchAndIssue_def split: if_splits option.splits)

lemma issue_loop_x0:
  "regFile (issue_loop now n s) 0 = regFile s 0 \<and> rat (issue_loop now n s) 0 = rat s 0
   \<and> instructions (issue_loop now n s) = instructions s
   \<and> clock (issue_loop now n s) = clock s"
proof (induction n arbitrary: s)
  case 0
  then show ?case by simp
next
  case (Suc n)
  show ?case
  proof (cases "stageFetchAndIssue now s")
    case None
    then show ?thesis by simp
  next
    case (Some s')
    then obtain t k where "s' = issue_at now t k s" using issue_some by blast
    with Some Suc [of s'] show ?thesis by (simp add: issue_at_basic)
  qed
qed

lemma issue_loop_count:
  "int (instructionsCommitted (issue_loop now n s) + length (rob (issue_loop now n s)))
     - nextRobTag (issue_loop now n s)
   = int (instructionsCommitted s + length (rob s)) - nextRobTag s"
proof (induction n arbitrary: s)
  case 0
  then show ?case by simp
next
  case (Suc n)
  show ?case
  proof (cases "stageFetchAndIssue now s")
    case None
    then show ?thesis by simp
  next
    case (Some s')
    then obtain t k where s': "s' = issue_at now t k s" using issue_some by blast
    have "length (map r_robTag (rob s')) = length (map r_robTag (rob s) @ [nextRobTag s])"
      using issue_at_basic [of now t k s] s' by simp
    then have "length (rob s') = length (rob s) + 1" by simp
    with Some Suc [of s'] s' show ?thesis by (simp add: issue_at_basic)
  qed
qed

subsubsection \<open>One cycle and runs\<close>

lemma step_x0:
  assumes "regFile s 0 = 0" "rat s 0 = - 1"
  shows "regFile (step now s) 0 = 0 \<and> rat (step now s) 0 = - 1"
proof -
  let ?s1 = "s\<lparr>clock := clock s + 1\<rparr>"
  let ?s2 = "stageCommit now ?s1"
  let ?s3 = "stageExecute now ?s2"
  have 2: "regFile ?s2 0 = 0 \<and> rat ?s2 0 = - 1"
    using assms stageCommit_unchanged [of now ?s1] stageCommit_rat0 [of ?s1 now] by simp
  have 3: "regFile ?s3 0 = 0 \<and> rat ?s3 0 = - 1"
    using 2 stageExecute_frame [of ?s2 now] by (simp add: exec_frame_def)
  have 4: "regFile (issue_loop now width ?s3) 0 = 0 \<and> rat (issue_loop now width ?s3) 0 = - 1"
    using 3 issue_loop_x0 [of now width ?s3] by simp
  show ?thesis
    using 4 assms by (simp add: step_def Let_def log_def)
qed

lemma step_count:
  "int (instructionsCommitted (step now s) + length (rob (step now s)) + flush_discards s)
     - nextRobTag (step now s)
   = int (instructionsCommitted s + length (rob s)) - nextRobTag s"
proof (cases "pc s \<ge> int (length (instructions s)) * 4 \<and> rob s = []")
  case True
  then show ?thesis
    by (simp add: step_def log_def flush_discards_def mispredicted_iff)
next
  case False
  let ?s1 = "s\<lparr>clock := clock s + 1\<rparr>"
  let ?s2 = "stageCommit now ?s1"
  let ?s3 = "stageExecute now ?s2"
  let ?s4 = "issue_loop now width ?s3"
  have f: "flush_discards ?s1 = flush_discards s"
    by (simp add: flush_discards_def mispredicted_iff)
  have 2: "instructionsCommitted ?s2 + length (rob ?s2) + flush_discards s
             = instructionsCommitted s + length (rob s) \<and> nextRobTag ?s2 = nextRobTag s"
    using stageCommit_count [of now ?s1] stageCommit_unchanged [of now ?s1] f by simp
  have "length (map r_robTag (rob ?s3)) = length (map r_robTag (rob ?s2))"
    using stageExecute_frame [of ?s2 now] by (simp only: exec_frame_def)
  then have 3: "instructionsCommitted ?s3 = instructionsCommitted ?s2
                 \<and> length (rob ?s3) = length (rob ?s2) \<and> nextRobTag ?s3 = nextRobTag ?s2"
    using stageExecute_frame [of ?s2 now] by (simp add: exec_frame_def)
  have 4: "int (instructionsCommitted ?s4 + length (rob ?s4)) - nextRobTag ?s4
            = int (instructionsCommitted ?s3 + length (rob ?s3)) - nextRobTag ?s3"
    by (rule issue_loop_count)
  have s: "instructionsCommitted (step now s) = instructionsCommitted ?s4
           \<and> rob (step now s) = rob ?s4 \<and> nextRobTag (step now s) = nextRobTag ?s4"
    using False by (auto simp: step_def Let_def)
  from 2 3 have a: "int (instructionsCommitted ?s3) + int (length (rob ?s3))
        + int (flush_discards s) = int (instructionsCommitted s) + int (length (rob s))"
    and b: "nextRobTag ?s3 = nextRobTag s"
    by linarith+
  from 4 have c: "int (instructionsCommitted ?s4) + int (length (rob ?s4)) - nextRobTag ?s4
      = int (instructionsCommitted ?s3) + int (length (rob ?s3)) - nextRobTag ?s3"
    by simp
  show ?thesis
    using a b c by (simp add: s)
qed

lemma run_x0:
  assumes "regFile s 0 = 0" "rat s 0 = - 1"
  shows "regFile (run now s n) 0 = 0 \<and> rat (run now s n) 0 = - 1"
  using assms by (induction n) (simp_all add: step_x0)

lemma run_count:
  "int (instructionsCommitted (run now s n) + length (rob (run now s n)) + discarded now s n)
     - nextRobTag (run now s n)
   = int (instructionsCommitted s + length (rob s)) - nextRobTag s"
proof (induction n)
  case 0
  then show ?case by simp
next
  case (Suc n)
  show ?case
    using Suc step_count [of now "run now s n"] by simp
qed

subsection \<open>Register x0\<close>

text \<open>
  Claim C8. After every cycle of every run that starts with loadProgram, the
  architectural register x0 holds 0 and its RAT entry is architectural: the commit stage
  never changes register 0 of the register file, and the issue loop never changes the
  RAT entry of register 0.
\<close>

theorem x0_stays_zero:
  "regFile (run now (loadProgram src s) n) 0 = 0
   \<and> rat (run now (loadProgram src s) n) 0 = - 1
   \<and> regFile (stageCommit now t) 0 = regFile t 0
   \<and> rat (issue_loop now k t) 0 = rat t 0"
proof -
  have "regFile (loadProgram src s) 0 = 0" "rat (loadProgram src s) 0 = - 1"
    by (simp_all add: loadProgram_fields)
  then show ?thesis
    using run_x0 [of "loadProgram src s" now n] stageCommit_unchanged [of now t]
      issue_loop_x0 [of now k t]
    by simp
qed

subsection \<open>Committed, live and issued instructions\<close>

lemma issued_log: "issued (log m s) = issued s + (if is_issue m then 1 else 0)"
  by (simp add: issued_def log_def)

lemma issued_cong: "logs s' = logs s \<Longrightarrow> issued s' = issued s"
  by (simp add: issued_def)

lemma compute_result_logs: "logs (snd (compute_result now rs ins s)) = logs s"
  by (cases "i_op ins") (simp_all add: compute_result_def Let_def l1d_access_fields)

lemma complete_execution_issued: "issued (snd (complete_execution now rs ins s)) = issued s"
  using issued_cong [OF compute_result_logs [of now rs ins s]]
  by (simp add: complete_execution_def Let_def issued_log) (simp add: issued_def)

lemma exec_rs_issued: "issued (snd (exec_rs now rs s)) = issued s"
  using exec_rs_cases [of now rs s]
  by (elim disjE conjE) (simp_all add: complete_execution_issued)

lemma exec_pool_issued: "issued (snd (exec_pool now rss s)) = issued s"
  by (induction rss arbitrary: s) (simp_all add: Let_def exec_rs_issued)

lemma stageExecute_issued: "issued (stageExecute now s) = issued s"
proof -
  have "issued (stageExecute now s)
          = issued (snd (exec_pool now (rsLS s) (snd (exec_pool now (rsALU s) s))))"
    by (simp add: stageExecute_def Let_def issued_def)
  then show ?thesis by (simp add: exec_pool_issued)
qed

lemma commit_retire_issued: "issued (commit_retire now h s) = issued s"
proof -
  have w: "issued (write_back h s) = issued s"
    by (simp add: issued_def write_back_fields)
  have l: "issued (l1d_access now 0 True (write_back h s)) = issued s"
    by (simp add: issued_def l1d_access_fields write_back_fields)
  show ?thesis
    using commit_retire_cases [of now h s]
    by (elim disjE conjE) (simp_all add: issued_log w l, simp_all add: issued_def w [unfolded issued_def]
          l [unfolded issued_def] log_def)
qed

lemma stageCommit_issued: "issued (stageCommit now s) = issued s"
proof -
  have t: "issued (train_predictor (hd (rob s)) s) = issued s"
    by (simp add: issued_def train_predictor_fields)
  have f: "\<And>a b u. issued (flushPipeline a b u) = issued u"
    by (simp add: issued_def flushPipeline_def initRS_def Let_def)
  show ?thesis
    using stageCommit_cases [of now s]
    by (elim disjE conjE) (simp_all add: commit_retire_issued t f issued_log)
qed

lemma issue_at_issued: "issued (issue_at now t k s) = issued s + 1"
proof -
  have a: "\<And>u. issued (fetch_l1i now u) = issued u"
    by (simp add: fetch_l1i_def Let_def issued_log) (simp add: issued_def)
  have b: "\<And>i u. issued (push_lsq i u) = issued u" "\<And>k r u. issued (fill_station k r u) = issued u"
    "\<And>i u. issued (push_rob i u) = issued u" "\<And>i u. issued (rename_dest i u) = issued u"
    by (simp_all add: issued_def push_lsq_def fill_station_def push_rob_def rename_dest_def)
  have c: "\<And>i p u. issued (redirect i p u) = issued u"
    by (simp add: redirect_def Let_def issued_log) (simp add: issued_def)
  have d: "\<And>u. issued (u\<lparr>nextRobTag := nextRobTag u + 1\<rparr>) = issued u"
    by (simp add: issued_def)
  show ?thesis
    by (simp add: issue_at_def Let_def issued_log a b c d)
qed

lemma issue_loop_issued:
  "int (issued (issue_loop now n s)) - nextRobTag (issue_loop now n s)
     = int (issued s) - nextRobTag s"
proof (induction n arbitrary: s)
  case 0
  then show ?case by simp
next
  case (Suc n)
  show ?case
  proof (cases "stageFetchAndIssue now s")
    case None
    then show ?thesis by simp
  next
    case (Some s')
    then obtain t k where s': "s' = issue_at now t k s" using issue_some by blast
    with Some Suc [of s'] show ?thesis by (simp add: issue_at_basic issue_at_issued)
  qed
qed

lemma step_issued:
  "int (issued (step now s)) - nextRobTag (step now s) = int (issued s) - nextRobTag s"
proof (cases "pc s \<ge> int (length (instructions s)) * 4 \<and> rob s = []")
  case True
  then have "step now s = log ExecucaoFinalizada (s\<lparr>isRunning := False\<rparr>)"
    by (simp add: step_def)
  then show ?thesis
    by (simp add: issued_log log_fields) (simp add: issued_def)
next
  case False
  let ?s1 = "s\<lparr>clock := clock s + 1\<rparr>"
  let ?s3 = "stageExecute now (stageCommit now ?s1)"
  let ?s4 = "issue_loop now width ?s3"
  have 1: "issued ?s1 = issued s" "nextRobTag ?s1 = nextRobTag s"
    by (simp_all add: issued_def)
  have 3: "issued ?s3 = issued s \<and> nextRobTag ?s3 = nextRobTag s"
    using stageExecute_frame [of "stageCommit now ?s1" now] 1
    by (simp add: stageExecute_issued stageCommit_issued stageCommit_unchanged exec_frame_def)
  have "step now s = ?s4\<lparr>robOccupationHistory := robOccupationHistory ?s4 @ [length (rob ?s4)],
            rsOccupationHistory := rsOccupationHistory ?s4
               @ [count_busy (rsALU ?s4) + count_busy (rsLS ?s4)]\<rparr>"
    using False by (auto simp: step_def Let_def)
  then have "issued (step now s) = issued ?s4 \<and> nextRobTag (step now s) = nextRobTag ?s4"
    by (simp add: issued_def)
  then show ?thesis
    using issue_loop_issued [of now width ?s3] 3 by simp
qed

lemma run_issued:
  "int (issued (run now s n)) - nextRobTag (run now s n) = int (issued s) - nextRobTag s"
  by (induction n) (simp_all add: step_issued)

lemma loadProgram_issued: "issued (loadProgram src s) = 0"
  by (cases src) (simp_all add: issued_def loadProgram_fields)

text \<open>
  Claim C7, amended. After every cycle of every run that starts with loadProgram, the
  committed count plus the number of live ROB entries plus the number of ROB entries
  discarded by flushes equals the number of instructions issued since the reset; so
  committed plus live never exceeds issued.
\<close>

theorem committed_live_discarded:
  "instructionsCommitted (run now (loadProgram src s) n)
     + length (rob (run now (loadProgram src s) n))
     + discarded now (loadProgram src s) n
   = issued (run now (loadProgram src s) n)
   \<and> instructionsCommitted (run now (loadProgram src s) n)
       + length (rob (run now (loadProgram src s) n))
     \<le> issued (run now (loadProgram src s) n)"
proof -
  let ?l = "loadProgram src s"
  have "int (instructionsCommitted (run now ?l n) + length (rob (run now ?l n))
          + discarded now ?l n) - nextRobTag (run now ?l n) = - nextRobTag ?l"
    using run_count [of now ?l n] by (simp add: loadProgram_fields)
  moreover have "int (issued (run now ?l n)) - nextRobTag (run now ?l n) = - nextRobTag ?l"
    using run_issued [of now ?l n] by (simp add: loadProgram_issued)
  ultimately have "instructionsCommitted (run now ?l n) + length (rob (run now ?l n))
      + discarded now ?l n = issued (run now ?l n)"
    by linarith
  then show ?thesis by simp
qed

lemma mispredict_counts: "issue_view (run frozen_clock (reset prog_mispredict) 4) = (1, 1, 5)"
  by code_simp

text \<open>
  Claim C7 as stated fails once a flush has happened: after four cycles of
  \<open>prog_mispredict\<close> one instruction is committed and one is live, of five issued.
\<close>

theorem committed_plus_live_counterexample:
  "instructionsCommitted (run frozen_clock (reset prog_mispredict) 4)
     + length (rob (run frozen_clock (reset prog_mispredict) 4))
   \<noteq> issued (run frozen_clock (reset prog_mispredict) 4)"
  using mispredict_counts by (simp add: issue_view_def)

theorem committed_live_discarded_witness:
  "instructionsCommitted (run frozen_clock (reset prog_mispredict) 4) = 1
   \<and> length (rob (run frozen_clock (reset prog_mispredict) 4)) = 1
   \<and> issued (run frozen_clock (reset prog_mispredict) 4) = 5
   \<and> discarded frozen_clock (reset prog_mispredict) 4 = 3"
  using committed_live_discarded [of frozen_clock "Inr prog_mispredict" new_Simulator 4]
    mispredict_counts
  by (simp add: issue_view_def reset_def [symmetric])

subsection \<open>Flush\<close>

lemma before_flush_view:
  "map r_robTag (fst (queue_view before_flush)) = [1, 2, 3, 4]
   \<and> snd (queue_view before_flush) = ([2, 3], 16, 0)"
  by code_simp

lemma after_flush_view: "queue_view (flushPipeline 8 True before_flush) = ([], [2, 3], 8, 0)"
  by code_simp

lemma after_commit_view: "queue_view (stageCommit frozen_clock before_flush) = ([], [2, 3], 8, 0)"
  by code_simp

text \<open>
  Claim C1 fails on the LSQ: flushPipeline empties the ROB and both station pools, resets
  the RAT, sets the PC and leaves the register file alone (see \<open>flushPipeline_fields\<close>),
  but it does not touch the LSQ. In the third cycle of \<open>prog_branch_over_loads\<close> the
  commit stage flushes with redirect address 8 while the two wrong-path loads (tags 2
  and 3) are in the LSQ, and both entries are still there after the flush.
\<close>

theorem flushPipeline_keeps_lsq:
  "map r_robTag (rob before_flush) = [1, 2, 3, 4]
   \<and> map l_robTag (lsq before_flush) = [2, 3]
   \<and> rob (flushPipeline 8 True before_flush) = []
   \<and> pc (flushPipeline 8 True before_flush) = 8
   \<and> map l_robTag (lsq (flushPipeline 8 True before_flush)) = [2, 3]
   \<and> rob (stageCommit frozen_clock before_flush) = []
   \<and> pc (stageCommit frozen_clock before_flush) = 8
   \<and> map l_robTag (lsq (stageCommit frozen_clock before_flush)) = [2, 3]"
  using before_flush_view after_flush_view after_commit_view by (simp add: queue_view_def)

subsection \<open>Execute: results\<close>

lemma compute_result_missing_cases:
  assumes "i_op ins = AND \<or> i_op ins = OR \<or> i_op ins = XOR \<or> i_op ins = SLT"
  shows "compute_result now rs ins s = (0, s)"
  using assms by (auto simp: compute_result_def)

lemma prog_and_regs:
  "regs_view (run frozen_clock (reset prog_and) 5) = ([0, 6, 3, 0], [- 1, - 1, - 1, - 1])"
  by code_simp

lemma prog_and_counts: "count_view (run frozen_clock (reset prog_and) 5) = (3, 0, 4)"
  by code_simp

lemma prog_and_rob:
  "queue_view (run frozen_clock (reset prog_and) 3) =
     ([\<lparr>r_robTag = 2, r_op = ADDI, r_rd = 2, r_pc = 4, r_instText = ''ADDI x2,x0,3'',
        r_isReady = True, r_result = 3, r_predictedTaken = False, r_targetAddr = 0\<rparr>,
       \<lparr>r_robTag = 3, r_op = AND, r_rd = 3, r_pc = 8, r_instText = ''AND x3,x1,x2'',
        r_isReady = True, r_result = 0, r_predictedTaken = False, r_targetAddr = 0\<rparr>],
      [], 12, 1)"
  by code_simp

text \<open>
  Claim C2 fails for AND, OR, XOR and SLT: the \<open>switch\<close> of stageExecute has no case
  for them, so their result is 0 (see \<open>compute_result_missing_cases\<close>). In the run of
  \<open>prog_and\<close> the third cycle broadcasts result 0 to the ROB entry of \<open>AND x3,x1,x2\<close>,
  and the run commits x1 = 6, x2 = 3 and x3 = 0, where the bitwise AND of 6 and 3 is 2.
\<close>

theorem and_result_is_zero:
  "map r_op (rob (run frozen_clock (reset prog_and) 3)) = [ADDI, AND]
   \<and> map r_isReady (rob (run frozen_clock (reset prog_and) 3)) = [True, True]
   \<and> map r_result (rob (run frozen_clock (reset prog_and) 3)) = [3, 0]
   \<and> regFile (run frozen_clock (reset prog_and) 5) 1 = 6
   \<and> regFile (run frozen_clock (reset prog_and) 5) 2 = 3
   \<and> regFile (run frozen_clock (reset prog_and) 5) 3 = 0
   \<and> instructionsCommitted (run frozen_clock (reset prog_and) 5) = 3
   \<and> rob (run frozen_clock (reset prog_and) 5) = []"
  using prog_and_regs prog_and_counts prog_and_rob
  by (simp add: regs_view_def count_view_def queue_view_def upt_rec numeral_nat)

subsection \<open>Commit of a load or store behind a foreign LSQ head\<close>

lemma commit_retire_stall:
  assumes "r_op head = LW \<or> r_op head = SW"
    and "lsq s = [] \<or> l_robTag (hd (lsq s)) \<noteq> r_robTag head \<or> \<not> l_isMemReady (hd (lsq s))"
  shows "commit_retire now head s = write_back head s"
  using commit_retire_cases [of now head s] assms
  by (elim disjE conjE) simp_all

lemma write_back_other_regs: "i \<noteq> r_rd h \<Longrightarrow> regFile (write_back h s) i = regFile s i"
  by (simp add: write_back_def regFile_store_def)

lemma write_back_other_rat: "i \<noteq> r_rd h \<Longrightarrow> rat (write_back h s) i = rat s i"
  by (simp add: write_back_def)

text \<open>
  Claim C4, amended. When the ROB head is a ready load or store that is not the LSQ head
  with its mem-ready flag set, stageCommit leaves the ROB (the head stays in place), the
  LSQ, memory, the committed count, the PC and the data cache as they are, and writes no
  register and no RAT entry other than those of the head's destination; when the head is
  a store or its destination is x0, the whole state is unchanged.
\<close>

theorem commit_stall_frame:
  assumes "rob s = head # rest" and "r_isReady head" and "r_op head = LW \<or> r_op head = SW"
    and "lsq s = [] \<or> l_robTag (hd (lsq s)) \<noteq> r_robTag head \<or> \<not> l_isMemReady (hd (lsq s))"
  shows "rob (stageCommit now s) = rob s \<and> lsq (stageCommit now s) = lsq s
     \<and> memory (stageCommit now s) = memory s
     \<and> instructionsCommitted (stageCommit now s) = instructionsCommitted s
     \<and> pc (stageCommit now s) = pc s \<and> l1d (stageCommit now s) = l1d s
     \<and> (\<forall>i. i \<noteq> r_rd head \<longrightarrow> regFile (stageCommit now s) i = regFile s i
                               \<and> rat (stageCommit now s) i = rat s i)
     \<and> (r_op head = SW \<or> r_rd head = 0 \<longrightarrow> stageCommit now s = s)"
proof -
  have c: "stageCommit now s = write_back head s"
    using assms by (auto simp: stageCommit_def commit_retire_stall)
  show ?thesis
    unfolding c
    by (simp add: write_back_fields write_back_other_regs write_back_other_rat write_back_id)
qed

lemma stalled_store_view:
  "queue_view stalled_store =
     ([\<lparr>r_robTag = 4, r_op = SW, r_rd = 0, r_pc = 8, r_instText = ''SW x0,0(x0)'',
        r_isReady = True, r_result = 0, r_predictedTaken = False, r_targetAddr = 0\<rparr>],
      [2, 3, 4], 12, 0)"
  by code_simp

theorem commit_stall_frame_witness:
  "r_isReady (hd (rob stalled_store)) \<and> r_op (hd (rob stalled_store)) = SW
   \<and> r_robTag (hd (rob stalled_store)) = 4 \<and> l_robTag (hd (lsq stalled_store)) = 2
   \<and> stageCommit frozen_clock stalled_store = stalled_store"
proof -
  let ?h = "\<lparr>r_robTag = 4, r_op = SW, r_rd = 0, r_pc = 8, r_instText = ''SW x0,0(x0)'',
        r_isReady = True, r_result = 0, r_predictedTaken = False, r_targetAddr = 0\<rparr>"
  have r: "rob stalled_store = ?h # []" and l: "map l_robTag (lsq stalled_store) = [2, 3, 4]"
    using stalled_store_view by (simp_all add: queue_view_def)
  from l have l2: "l_robTag (hd (lsq stalled_store)) = 2" by (cases "lsq stalled_store") auto
  have "stageCommit frozen_clock stalled_store = stalled_store"
    using commit_stall_frame [OF r, of frozen_clock] l2 by simp
  then show ?thesis using r l2 by simp
qed

lemma stalled_load_view:
  "queue_view stalled_load =
     ([\<lparr>r_robTag = 5, r_op = LW, r_rd = 2, r_pc = 12, r_instText = ''LW x2,0(x0)'',
        r_isReady = True, r_result = 0, r_predictedTaken = False, r_targetAddr = 0\<rparr>],
      [3, 4, 5], 16, 1)"
  by code_simp

lemma stalled_load_regs: "regs_view stalled_load = ([0, 0, 9, 0], [- 1, - 1, 5, - 1])"
  by code_simp

lemma stalled_load_regs_after:
  "regs_view (stageCommit frozen_clock stalled_load) = ([0, 0, 0, 0], [- 1, - 1, - 1, - 1])"
  by code_simp

text \<open>
  Claim C4 as stated fails for a load with a destination: the register write of the
  commit stage comes before the LSQ test. In the seventh cycle of \<open>prog_stall\<close> the ROB
  head is the ready load of x2 (tag 5) behind the stale LSQ head (tag 3); the stalled
  commit changes x2 from 9 to the loaded 0 and releases the RAT entry of x2.
\<close>

theorem commit_stall_counterexample:
  "r_isReady (hd (rob stalled_load)) \<and> r_op (hd (rob stalled_load)) = LW
   \<and> r_robTag (hd (rob stalled_load)) = 5 \<and> l_robTag (hd (lsq stalled_load)) = 3
   \<and> regFile stalled_load 2 = 9 \<and> regFile (stageCommit frozen_clock stalled_load) 2 = 0
   \<and> rat stalled_load 2 = 5 \<and> rat (stageCommit frozen_clock stalled_load) 2 = - 1"
proof -
  have r: "rob stalled_load = [\<lparr>r_robTag = 5, r_op = LW, r_rd = 2, r_pc = 12, r_instText = ''LW x2,0(x0)'',
        r_isReady = True, r_result = 0, r_predictedTaken = False, r_targetAddr = 0\<rparr>]"
    and l: "map l_robTag (lsq stalled_load) = [3, 4, 5]"
    using stalled_load_view by (simp_all add: queue_view_def)
  from l have l2: "l_robTag (hd (lsq stalled_load)) = 3" by (cases "lsq stalled_load") auto
  show ?thesis
    using r l2 stalled_load_regs stalled_load_regs_after
    by (simp add: regs_view_def upt_rec numeral_nat)
qed

subsection \<open>Branches: target at execute, check at commit\<close>

lemma find_update_first:
  assumes "find P xs = Some e" "\<And>x. P x \<Longrightarrow> P (f x)"
  shows "find P (update_first P f xs) = Some (f e)"
  using assms by (induction xs) (auto split: if_splits)

lemma compute_result_branch:
  "i_op ins = BEQ \<Longrightarrow> compute_result now rs ins s = (if vj rs = vk rs then 1 else 0, s)"
  "i_op ins = BNE \<Longrightarrow> compute_result now rs ins s = (if vj rs \<noteq> vk rs then 1 else 0, s)"
  by (simp_all add: compute_result_def)

lemma countdown_fields:
  "i_op (countdown rs ins) = i_op ins" "i_pc (countdown rs ins) = i_pc ins"
  "i_imm (countdown rs ins) = i_imm ins"
  "i_executionCyclesLeft (countdown rs ins) = i_executionCyclesLeft ins - 1"
  by (simp_all add: countdown_def Let_def)

lemma exec_rs_completes:
  assumes "completes rs s"
  shows "exec_rs now rs s =
           complete_execution now (capture_operands (rob s) rs)
             (countdown (capture_operands (rob s) rs) (inst rs)) s"
  using assms by (simp add: completes_def exec_rs_def Let_def countdown_fields)

lemma complete_execution_branch:
  assumes "i_op ins = BEQ \<or> i_op ins = BNE"
  shows "rob (snd (complete_execution now rs ins s)) =
           update_first (\<lambda>r. r_robTag r = i_robTag ins)
             (\<lambda>r. r\<lparr>r_result := (if (if i_op ins = BEQ then vj rs = vk rs else vj rs \<noteq> vk rs)
                                   then 1 else 0),
                     r_isReady := True,
                     r_targetAddr := (if (if i_op ins = BEQ then vj rs = vk rs else vj rs \<noteq> vk rs)
                                      then i_pc ins + i_imm ins else i_pc ins + 4)\<rparr>)
             (rob s)"
  using assms
  by (auto simp: complete_execution_def Let_def compute_result_branch broadcast_def log_fields
        intro!: arg_cong [where f = "\<lambda>f. update_first _ f _"])

lemma exec_rs_branch:
  assumes c: "completes rs s" and b: "i_op (inst rs) = BEQ \<or> i_op (inst rs) = BNE"
    and f: "find (\<lambda>r. r_robTag r = i_robTag (inst rs)) (rob s) = Some e"
  shows "find (\<lambda>r. r_robTag r = i_robTag (inst rs)) (rob (snd (exec_rs now rs s))) =
           Some (e\<lparr>r_result := (if branch_outcome rs s then 1 else 0), r_isReady := True,
                   r_targetAddr := (if branch_outcome rs s
                                    then i_pc (inst rs) + i_imm (inst rs)
                                    else i_pc (inst rs) + 4)\<rparr>)"
proof -
  let ?rs = "capture_operands (rob s) rs"
  let ?ins = "countdown ?rs (inst rs)"
  have o: "(if i_op ?ins = BEQ then vj ?rs = vk ?rs else vj ?rs \<noteq> vk ?rs) = branch_outcome rs s"
    by (simp add: branch_outcome_def countdown_fields)
  have b': "i_op ?ins = BEQ \<or> i_op ?ins = BNE" using b by (simp add: countdown_fields)
  show ?thesis
    unfolding exec_rs_completes [OF c] complete_execution_branch [OF b'] o
    using find_update_first [OF f, where f = "\<lambda>r. r\<lparr>r_result := (if branch_outcome rs s then 1 else 0), r_isReady := True,
                   r_targetAddr := (if branch_outcome rs s
                                    then i_pc (inst rs) + i_imm (inst rs)
                                    else i_pc (inst rs) + 4)\<rparr>"]
    by (cases "branch_outcome rs s") (simp_all add: countdown_fields countdown_robTag)
qed

lemma stageCommit_branch:
  assumes "rob s = head # rest" "r_isReady head" "r_op head = BEQ \<or> r_op head = BNE"
  shows "stageCommit now s =
     (if (r_result head = 1) \<noteq> r_predictedTaken head
      then flushPipeline (r_targetAddr head) (r_result head = 1)
             (log (FlushBranch (r_pc head)) (train_predictor head s))
      else (train_predictor head s)\<lparr>rob := rest,
             instructionsCommitted := instructionsCommitted s + 1\<rparr>)"
proof -
  have "commit_retire now head (train_predictor head s) =
          (train_predictor head s)\<lparr>rob := rest, instructionsCommitted := instructionsCommitted s + 1\<rparr>"
    using assms commit_retire_cases [of now head "train_predictor head s"]
    by (elim disjE conjE) (auto simp: write_back_def train_predictor_fields)
  then show ?thesis
    using assms by (auto simp: stageCommit_def Let_def)
qed

text \<open>
  Claim C5. When the ROB head is a ready BEQ or BNE, stageCommit updates the predictor
  with the actual direction (\<open>result = 1\<close>) at the branch PC; if that direction differs
  from the predicted one, the result is the flush with the head's target address as
  redirect PC and nothing is committed; if they agree, the branch is retired. And when
  a station holding a BEQ or BNE completes, the ROB entry of its tag gets result 1 and
  target \<open>pc + imm\<close> if the branch condition holds on the captured operands, and result
  0 and target \<open>pc + 4\<close> otherwise.
\<close>

theorem branch_commit_and_target:
  "(rob s = head # rest \<and> r_isReady head \<and> (r_op head = BEQ \<or> r_op head = BNE) \<longrightarrow>
      predictor (stageCommit now s) = update (r_pc head) (r_result head = 1) (predictor s)
      \<and> ((r_result head = 1) \<noteq> r_predictedTaken head \<longrightarrow>
            stageCommit now s =
              flushPipeline (r_targetAddr head) (r_result head = 1)
                (log (FlushBranch (r_pc head)) (train_predictor head s))
            \<and> pc (stageCommit now s) = r_targetAddr head
            \<and> rob (stageCommit now s) = []
            \<and> instructionsCommitted (stageCommit now s) = instructionsCommitted s
            \<and> regFile (stageCommit now s) = regFile s
            \<and> memory (stageCommit now s) = memory s)
      \<and> ((r_result head = 1) = r_predictedTaken head \<longrightarrow>
            rob (stageCommit now s) = rest
            \<and> instructionsCommitted (stageCommit now s) = instructionsCommitted s + 1
            \<and> pc (stageCommit now s) = pc s))
   \<and> (completes rs s' \<and> (i_op (inst rs) = BEQ \<or> i_op (inst rs) = BNE)
       \<and> find (\<lambda>r. r_robTag r = i_robTag (inst rs)) (rob s') = Some e \<longrightarrow>
         find (\<lambda>r. r_robTag r = i_robTag (inst rs)) (rob (snd (exec_rs now rs s'))) =
           Some (e\<lparr>r_result := (if branch_outcome rs s' then 1 else 0), r_isReady := True,
                   r_targetAddr := (if branch_outcome rs s'
                                    then i_pc (inst rs) + i_imm (inst rs)
                                    else i_pc (inst rs) + 4)\<rparr>))"
proof (intro conjI impI)
  assume a: "rob s = head # rest \<and> r_isReady head \<and> (r_op head = BEQ \<or> r_op head = BNE)"
  then have c: "stageCommit now s =
     (if (r_result head = 1) \<noteq> r_predictedTaken head
      then flushPipeline (r_targetAddr head) (r_result head = 1)
             (log (FlushBranch (r_pc head)) (train_predictor head s))
      else (train_predictor head s)\<lparr>rob := rest,
             instructionsCommitted := instructionsCommitted s + 1\<rparr>)"
    using stageCommit_branch by blast
  show "predictor (stageCommit now s) = update (r_pc head) (r_result head = 1) (predictor s)"
    unfolding c by (simp add: flushPipeline_fields log_fields train_predictor_fields)
  {
    assume m: "(r_result head = 1) \<noteq> r_predictedTaken head"
    show "stageCommit now s =
              flushPipeline (r_targetAddr head) (r_result head = 1)
                (log (FlushBranch (r_pc head)) (train_predictor head s))"
      using c m by simp
    show "pc (stageCommit now s) = r_targetAddr head" "rob (stageCommit now s) = []"
      "instructionsCommitted (stageCommit now s) = instructionsCommitted s"
      "regFile (stageCommit now s) = regFile s" "memory (stageCommit now s) = memory s"
      using c m by (simp_all add: flushPipeline_fields log_fields train_predictor_fields)
  }
  {
    assume m: "(r_result head = 1) = r_predictedTaken head"
    show "rob (stageCommit now s) = rest"
      "instructionsCommitted (stageCommit now s) = instructionsCommitted s + 1"
      "pc (stageCommit now s) = pc s"
      using c m by (simp_all add: train_predictor_fields)
  }
next
  assume "completes rs s' \<and> (i_op (inst rs) = BEQ \<or> i_op (inst rs) = BNE)
       \<and> find (\<lambda>r. r_robTag r = i_robTag (inst rs)) (rob s') = Some e"
  then show "find (\<lambda>r. r_robTag r = i_robTag (inst rs)) (rob (snd (exec_rs now rs s'))) =
           Some (e\<lparr>r_result := (if branch_outcome rs s' then 1 else 0), r_isReady := True,
                   r_targetAddr := (if branch_outcome rs s'
                                    then i_pc (inst rs) + i_imm (inst rs)
                                    else i_pc (inst rs) + 4)\<rparr>)"
    using exec_rs_branch by blast
qed

lemma branch_at_head_view:
  "queue_view branch_at_head =
     ([\<lparr>r_robTag = 2, r_op = BNE, r_rd = 0, r_pc = 4, r_instText = ''BNE x1,x0,8'',
        r_isReady = True, r_result = 1, r_predictedTaken = False, r_targetAddr = 12\<rparr>,
       \<lparr>r_robTag = 3, r_op = ADDI, r_rd = 3, r_pc = 8, r_instText = ''ADDI x3,x0,99'',
        r_isReady = True, r_result = 99, r_predictedTaken = False, r_targetAddr = 0\<rparr>,
       \<lparr>r_robTag = 4, r_op = ADDI, r_rd = 4, r_pc = 12, r_instText = ''ADDI x4,x0,7'',
        r_isReady = True, r_result = 7, r_predictedTaken = False, r_targetAddr = 0\<rparr>],
      [], 16, 1)"
  by code_simp

lemma branch_station_view:
  "(completes (rsALU branch_issued ! 1) branch_operands_ready,
    branch_outcome (rsALU branch_issued ! 1) branch_operands_ready,
    i_op (inst (rsALU branch_issued ! 1)), i_robTag (inst (rsALU branch_issued ! 1)),
    i_pc (inst (rsALU branch_issued ! 1)), i_imm (inst (rsALU branch_issued ! 1)),
    find (\<lambda>r. r_robTag r = 2) (rob branch_operands_ready))
   = (True, True, BNE, 2, 4, 8,
      Some \<lparr>r_robTag = 2, r_op = BNE, r_rd = 0, r_pc = 4, r_instText = ''BNE x1,x0,8'',
            r_isReady = False, r_result = 0, r_predictedTaken = False, r_targetAddr = 0\<rparr>)"
  by code_simp

theorem branch_commit_and_target_witness:
  "r_isReady (hd (rob branch_at_head)) \<and> r_op (hd (rob branch_at_head)) = BNE
   \<and> r_result (hd (rob branch_at_head)) = 1 \<and> \<not> r_predictedTaken (hd (rob branch_at_head))
   \<and> pc (stageCommit frozen_clock branch_at_head) = 12
   \<and> rob (stageCommit frozen_clock branch_at_head) = []
   \<and> instructionsCommitted (stageCommit frozen_clock branch_at_head) = 1
   \<and> predictor (stageCommit frozen_clock branch_at_head)
       = update 4 True (predictor branch_at_head)
   \<and> completes (rsALU branch_issued ! 1) branch_operands_ready
   \<and> i_op (inst (rsALU branch_issued ! 1)) = BNE
   \<and> find (\<lambda>r. r_robTag r = 2)
        (rob (snd (exec_rs frozen_clock (rsALU branch_issued ! 1) branch_operands_ready)))
       = Some \<lparr>r_robTag = 2, r_op = BNE, r_rd = 0, r_pc = 4, r_instText = ''BNE x1,x0,8'',
               r_isReady = True, r_result = 1, r_predictedTaken = False, r_targetAddr = 12\<rparr>"
proof -
  let ?h = "\<lparr>r_robTag = 2, r_op = BNE, r_rd = 0, r_pc = 4, r_instText = ''BNE x1,x0,8'',
        r_isReady = True, r_result = 1, r_predictedTaken = False, r_targetAddr = 12\<rparr>"
  let ?e = "\<lparr>r_robTag = 2, r_op = BNE, r_rd = 0, r_pc = 4, r_instText = ''BNE x1,x0,8'',
            r_isReady = False, r_result = 0, r_predictedTaken = False, r_targetAddr = 0\<rparr>"
  let ?rest = "[\<lparr>r_robTag = 3, r_op = ADDI, r_rd = 3, r_pc = 8, r_instText = ''ADDI x3,x0,99'',
        r_isReady = True, r_result = 99, r_predictedTaken = False, r_targetAddr = 0\<rparr>,
       \<lparr>r_robTag = 4, r_op = ADDI, r_rd = 4, r_pc = 12, r_instText = ''ADDI x4,x0,7'',
        r_isReady = True, r_result = 7, r_predictedTaken = False, r_targetAddr = 0\<rparr>]"
  have r: "rob branch_at_head = ?h # ?rest"
    and c: "instructionsCommitted branch_at_head = 1"
    using branch_at_head_view by (simp_all add: queue_view_def)
  have st: "completes (rsALU branch_issued ! 1) branch_operands_ready"
    "branch_outcome (rsALU branch_issued ! 1) branch_operands_ready"
    "i_op (inst (rsALU branch_issued ! 1)) = BNE"
    "i_robTag (inst (rsALU branch_issued ! 1)) = 2"
    "i_pc (inst (rsALU branch_issued ! 1)) = 4" "i_imm (inst (rsALU branch_issued ! 1)) = 8"
    "find (\<lambda>r. r_robTag r = 2) (rob branch_operands_ready) = Some ?e"
    using branch_station_view by simp_all
  show ?thesis
    using branch_commit_and_target [of branch_at_head ?h ?rest
        frozen_clock "rsALU branch_issued ! 1" branch_operands_ready ?e] r c st
    by (simp add: flushPipeline_fields log_fields train_predictor_fields)
qed

subsection \<open>Stale LSQ entries\<close>

lemma commit_retire_nomatch:
  assumes "lsq s = [] \<or> l_robTag (hd (lsq s)) \<noteq> r_robTag h"
  shows "lsq (commit_retire now h s) = lsq s
     \<and> (rob (commit_retire now h s) = rob s \<or> rob (commit_retire now h s) = tl (rob s))
     \<and> (r_op h = LW \<or> r_op h = SW \<longrightarrow>
           rob (commit_retire now h s) = rob s
           \<and> instructionsCommitted (commit_retire now h s) = instructionsCommitted s)"
  using commit_retire_cases [of now h s] assms
  by (elim disjE conjE) (simp_all add: write_back_fields)

lemma commit_retire_lsq:
  "lsq (commit_retire now h s) = lsq s \<or> lsq (commit_retire now h s) = tl (lsq s)"
  using commit_retire_cases [of now h s]
  by (elim disjE conjE) (simp_all add: write_back_fields)

lemma stageCommit_lsq:
  "lsq (stageCommit now s) = lsq s \<or> lsq (stageCommit now s) = tl (lsq s)"
  using stageCommit_cases [of now s] commit_retire_lsq [of now "hd (rob s)" s]
    commit_retire_lsq [of now "hd (rob s)" "train_predictor (hd (rob s)) s"]
  by (elim disjE conjE)
     (simp_all add: flushPipeline_fields log_fields train_predictor_fields)

lemma stageCommit_pools:
  "rsALU (stageCommit now s) = rsALU s \<and> rsLS (stageCommit now s) = rsLS s
   \<or> rsALU (stageCommit now s) = replicate 8 free_rs
     \<and> rsLS (stageCommit now s) = replicate 4 free_rs"
  using stageCommit_cases [of now s]
  by (elim disjE conjE)
     (simp_all add: flushPipeline_fields commit_retire_unchanged train_predictor_fields)

lemma stageCommit_nomatch:
  assumes "rob s \<noteq> [] \<longrightarrow> lsq s = [] \<or> l_robTag (hd (lsq s)) \<noteq> r_robTag (hd (rob s))"
  shows "lsq (stageCommit now s) = lsq s
     \<and> (rob (stageCommit now s) = rob s \<or> rob (stageCommit now s) = tl (rob s)
         \<or> rob (stageCommit now s) = [])
     \<and> (rob s \<noteq> [] \<and> (r_op (hd (rob s)) = LW \<or> r_op (hd (rob s)) = SW) \<longrightarrow>
           rob (stageCommit now s) = rob s
           \<and> instructionsCommitted (stageCommit now s) = instructionsCommitted s)"
proof -
  let ?h = "hd (rob s)"
  let ?t = "train_predictor ?h s"
  consider (same) "stageCommit now s = s"
    | (flush) "mispredicted s" "stageCommit now s =
        flushPipeline (r_targetAddr ?h) (r_result ?h = 1) (log (FlushBranch (r_pc ?h)) ?t)"
    | (branch) "rob s \<noteq> []" "r_op ?h = BEQ \<or> r_op ?h = BNE"
        "stageCommit now s = commit_retire now ?h ?t"
    | (other) "rob s \<noteq> []" "stageCommit now s = commit_retire now ?h s"
    using stageCommit_cases [of now s] by blast
  then show ?thesis
  proof cases
    case same
    then show ?thesis by simp
  next
    case flush
    then show ?thesis
      by (auto simp: flushPipeline_fields log_fields train_predictor_fields mispredicted_iff)
  next
    case branch
    have "lsq ?t = [] \<or> l_robTag (hd (lsq ?t)) \<noteq> r_robTag ?h"
      using assms branch(1) by (simp add: train_predictor_fields)
    from commit_retire_nomatch [OF this, of now] branch show ?thesis
      by (auto simp: train_predictor_fields)
  next
    case other
    have "lsq s = [] \<or> l_robTag (hd (lsq s)) \<noteq> r_robTag ?h"
      using assms other(1) by simp
    from commit_retire_nomatch [OF this, of now] other show ?thesis
      by auto
  qed
qed

lemma free_pool: "station_tags_from N (replicate k free_rs)"
  by (simp add: station_tags_from_def free_rs_def list_all_iff)

lemma stale_lsq_head:
  assumes "stale_lsq L N s"
  shows "lsq s \<noteq> [] \<and> hd (lsq s) = hd L \<and> l_robTag (hd (lsq s)) < N"
proof -
  from assms have L: "L \<noteq> []" and t: "take (length L) (lsq s) = L"
    and b: "list_all (\<lambda>t. t < N) (map l_robTag L)"
    by (simp_all add: stale_lsq_def)
  from L t have ne: "lsq s \<noteq> []" by auto
  from L t ne have "hd (lsq s) = hd L"
    by (metis hd_take length_greater_0_conv)
  moreover from L b have "l_robTag (hd L) < N"
    by (cases L) simp_all
  ultimately show ?thesis using ne by simp
qed

lemma stale_lsq_rob_head:
  assumes "stale_lsq L N s" "rob s \<noteq> []"
  shows "N \<le> r_robTag (hd (rob s))"
  using assms by (cases "rob s") (simp_all add: stale_lsq_def)

lemma stale_nomatch:
  assumes "stale_lsq L N s"
  shows "rob s \<noteq> [] \<longrightarrow> lsq s = [] \<or> l_robTag (hd (lsq s)) \<noteq> r_robTag (hd (rob s))"
  using stale_lsq_head [OF assms] stale_lsq_rob_head [OF assms] by auto

lemma list_all_tl: "list_all P xs \<Longrightarrow> list_all P (tl xs)"
  by (cases xs) simp_all

lemma stageCommit_stale:
  assumes "stale_lsq L N s"
  shows "stale_lsq L N (stageCommit now s)"
proof -
  note n = stageCommit_nomatch [OF stale_nomatch [OF assms], of now]
  from n have l: "lsq (stageCommit now s) = lsq s" by blast
  from n have "rob (stageCommit now s) = rob s \<or> rob (stageCommit now s) = tl (rob s)
         \<or> rob (stageCommit now s) = []" by blast
  moreover have "list_all (\<lambda>t. N \<le> t) (map r_robTag (rob s))"
    using assms by (simp add: stale_lsq_def)
  ultimately have r: "list_all (\<lambda>t. N \<le> t) (map r_robTag (rob (stageCommit now s)))"
    by (auto simp: map_tl dest: list_all_tl)
  have p: "station_tags_from N (rsALU (stageCommit now s))
           \<and> station_tags_from N (rsLS (stageCommit now s))"
    using stageCommit_pools [of now s] assms by (auto simp: free_pool stale_lsq_def)
  show ?thesis
    using assms l r p by (simp add: stale_lsq_def stageCommit_unchanged)
qed

lemma stale_blocks_memory_commit:
  assumes "stale_lsq L N s" "rob s \<noteq> []" "r_op (hd (rob s)) = LW \<or> r_op (hd (rob s)) = SW"
  shows "rob (stageCommit now s) = rob s
     \<and> instructionsCommitted (stageCommit now s) = instructionsCommitted s"
  using stageCommit_nomatch [OF stale_nomatch [OF assms(1)], of now] assms(2,3) by blast

lemma exec_pool_stations:
  assumes "station_tags_from N rss"
  shows "station_tags_from N (fst (exec_pool now rss s))"
  using assms
proof (induction rss arbitrary: s)
  case Nil
  then show ?case by simp
next
  case (Cons rs rss)
  from Cons.prems have 1: "busy rs \<longrightarrow> N \<le> i_robTag (inst rs)"
    and 2: "station_tags_from N rss"
    by (simp_all add: station_tags_from_def)
  have "busy (fst (exec_rs now rs s)) \<longrightarrow> N \<le> i_robTag (inst (fst (exec_rs now rs s)))"
    using exec_rs_station [of now rs s] 1 by auto
  then show ?case
    using Cons.IH [OF 2, of "snd (exec_rs now rs s)"]
    by (simp add: Let_def station_tags_from_def)
qed

lemma exec_pool_lsq_take:
  assumes "station_tags_from N rss"
    and "list_all (\<lambda>t. t < N) (map l_robTag (take k (lsq s)))"
  shows "take k (lsq (snd (exec_pool now rss s))) = take k (lsq s)"
  using assms
proof (induction rss arbitrary: s)
  case Nil
  then show ?case by simp
next
  case (Cons rs rss)
  from Cons.prems have 1: "busy rs \<longrightarrow> N \<le> i_robTag (inst rs)"
    and 2: "station_tags_from N rss"
    by (simp_all add: station_tags_from_def)
  have "busy rs \<longrightarrow> (\<forall>l \<in> set (take k (lsq s)). l_robTag l \<noteq> i_robTag (inst rs))"
    using 1 Cons.prems(2) by (auto simp: list_all_iff)
  then have 3: "take k (lsq (snd (exec_rs now rs s))) = take k (lsq s)"
    by (rule exec_rs_lsq_take)
  with Cons.prems(2)
  have "list_all (\<lambda>t. t < N) (map l_robTag (take k (lsq (snd (exec_rs now rs s)))))"
    by simp
  from Cons.IH [OF 2 this] 3 show ?case
    by (simp add: Let_def)
qed

lemma stageExecute_stale:
  assumes "stale_lsq L N s"
  shows "stale_lsq L N (stageExecute now s)"
proof -
  let ?a = "exec_pool now (rsALU s) s"
  let ?l = "exec_pool now (rsLS s) (snd ?a)"
  from assms have t: "take (length L) (lsq s) = L"
    and b: "list_all (\<lambda>t. t < N) (map l_robTag L)"
    and pa: "station_tags_from N (rsALU s)" and pl: "station_tags_from N (rsLS s)"
    by (simp_all add: stale_lsq_def)
  have 1: "take (length L) (lsq (snd ?a)) = L"
    using exec_pool_lsq_take [OF pa, of "length L" s now] t b by simp
  have 2: "take (length L) (lsq (snd ?l)) = L"
    using exec_pool_lsq_take [OF pl, of "length L" "snd ?a" now] 1 b by simp
  have f: "exec_frame s (stageExecute now s)" by (rule stageExecute_frame)
  have st: "stageExecute now s = (snd ?l)\<lparr>rsALU := fst ?a, rsLS := fst ?l\<rparr>"
    by (simp add: stageExecute_def Let_def)
  have l: "lsq (stageExecute now s) = lsq (snd ?l)"
    "rsALU (stageExecute now s) = fst ?a" "rsLS (stageExecute now s) = fst ?l"
    unfolding st by simp_all
  show ?thesis
    using assms f 2 exec_pool_stations [OF pa, of now s]
      exec_pool_stations [OF pl, of now "snd ?a"]
    by (simp add: stale_lsq_def exec_frame_def l)
qed

lemma issue_at_pools:
  assumes "station_tags_from N (rsALU s)" "station_tags_from N (rsLS s)" "N \<le> nextRobTag s"
  shows "station_tags_from N (rsALU (issue_at now t k s))
     \<and> station_tags_from N (rsLS (issue_at now t k s))"
proof -
  have u: "\<And>xs x. station_tags_from N xs \<Longrightarrow> (busy x \<longrightarrow> N \<le> i_robTag (inst x))
             \<Longrightarrow> station_tags_from N (xs[k := x])"
    unfolding station_tags_from_def list_all_iff
    using set_update_subset_insert by fastforce
  show ?thesis
    using assms
    by (simp add: issue_at_def Let_def issue_fields fill_station_def make_instruction_fields u)
qed

lemma issue_at_stale:
  assumes "stale_lsq L N s"
  shows "stale_lsq L N (issue_at now t k s)"
proof -
  from assms have tk: "take (length L) (lsq s) = L" by (simp add: stale_lsq_def)
  have "length (take (length L) (lsq s)) \<le> length (lsq s)" by simp
  with tk have len: "length L \<le> length (lsq s)" by simp
  have l: "take (length L) (lsq (issue_at now t k s)) = L"
    using issue_at_lsq [of now t k s] tk len by auto
  show ?thesis
    using assms l issue_at_pools [of N s now t k] issue_at_basic [of now t k s]
    by (simp add: stale_lsq_def)
qed

lemma issue_loop_stale:
  assumes "stale_lsq L N s"
  shows "stale_lsq L N (issue_loop now n s)"
  using assms
proof (induction n arbitrary: s)
  case 0
  then show ?case by simp
next
  case (Suc n)
  show ?case
  proof (cases "stageFetchAndIssue now s")
    case None
    with Suc.prems show ?thesis by simp
  next
    case (Some s')
    then obtain t k where "s' = issue_at now t k s" using issue_some by blast
    with Some Suc.IH [of s'] Suc.prems show ?thesis by (simp add: issue_at_stale)
  qed
qed

lemma step_unfold:
  assumes "rob s \<noteq> []"
  shows "step now s =
     (let s4 = issue_loop now width (stageExecute now (stageCommit now (s\<lparr>clock := clock s + 1\<rparr>)))
      in s4\<lparr>robOccupationHistory := robOccupationHistory s4 @ [length (rob s4)],
            rsOccupationHistory := rsOccupationHistory s4
               @ [count_busy (rsALU s4) + count_busy (rsLS s4)]\<rparr>)"
  using assms by (simp add: step_def Let_def)

lemma stale_lsq_cong:
  assumes "lsq s' = lsq s" "rob s' = rob s" "rsALU s' = rsALU s" "rsLS s' = rsLS s"
    "nextRobTag s' = nextRobTag s"
  shows "stale_lsq L N s' = stale_lsq L N s"
  using assms by (simp add: stale_lsq_def)

lemma step_stale:
  assumes "stale_lsq L N s"
  shows "stale_lsq L N (step now s)"
proof (cases "pc s \<ge> int (length (instructions s)) * 4 \<and> rob s = []")
  case True
  then have "step now s = log ExecucaoFinalizada (s\<lparr>isRunning := False\<rparr>)"
    by (simp add: step_def)
  then show ?thesis
    using assms by (simp add: stale_lsq_def log_def)
next
  case False
  let ?s1 = "s\<lparr>clock := clock s + 1\<rparr>"
  let ?s4 = "issue_loop now width (stageExecute now (stageCommit now ?s1))"
  have "stale_lsq L N ?s1" using assms by (simp add: stale_lsq_def)
  then have 4: "stale_lsq L N ?s4"
    by (intro issue_loop_stale stageExecute_stale stageCommit_stale)
  have "step now s = ?s4\<lparr>robOccupationHistory := robOccupationHistory ?s4 @ [length (rob ?s4)],
            rsOccupationHistory := rsOccupationHistory ?s4
               @ [count_busy (rsALU ?s4) + count_busy (rsLS ?s4)]\<rparr>"
    using False by (auto simp: step_def Let_def)
  then show ?thesis
    using 4 by (simp add: stale_lsq_def)
qed

lemma run_stale:
  assumes "stale_lsq L N s"
  shows "stale_lsq L N (run now s n)"
  using assms by (induction n) (simp_all add: step_stale)

subsection \<open>Tags in the LSQ are tags already handed out\<close>

lemma stageCommit_tags_below:
  assumes "lsq_tags_below s"
  shows "lsq_tags_below (stageCommit now s)"
  using stageCommit_lsq [of now s] assms
  by (auto simp: lsq_tags_below_def stageCommit_unchanged map_tl dest: list_all_tl)

lemma stageExecute_tags_below:
  assumes "lsq_tags_below s"
  shows "lsq_tags_below (stageExecute now s)"
  using stageExecute_frame [of s now] assms
  by (simp add: lsq_tags_below_def exec_frame_def)

lemma issue_loop_tags_below:
  assumes "lsq_tags_below s"
  shows "lsq_tags_below (issue_loop now n s)"
  using assms
proof (induction n arbitrary: s)
  case 0
  then show ?case by simp
next
  case (Suc n)
  show ?case
  proof (cases "stageFetchAndIssue now s")
    case None
    with Suc.prems show ?thesis by simp
  next
    case (Some s')
    then obtain t k where s': "s' = issue_at now t k s" using issue_some by blast
    have "list_all (\<lambda>t. t < nextRobTag s + 1) (map l_robTag (lsq s))"
      using Suc.prems by (auto simp: lsq_tags_below_def list_all_iff)
    then have "lsq_tags_below s'"
      using issue_at_lsq [of now t k s] issue_at_basic [of now t k s] s'
      by (auto simp: lsq_tags_below_def)
    with Some Suc.IH [of s'] show ?thesis by simp
  qed
qed

lemma step_tags_below:
  assumes "lsq_tags_below s"
  shows "lsq_tags_below (step now s)"
proof (cases "pc s \<ge> int (length (instructions s)) * 4 \<and> rob s = []")
  case True
  then have "step now s = log ExecucaoFinalizada (s\<lparr>isRunning := False\<rparr>)"
    by (simp add: step_def)
  then show ?thesis
    using assms by (simp add: lsq_tags_below_def log_def)
next
  case False
  let ?s1 = "s\<lparr>clock := clock s + 1\<rparr>"
  let ?s4 = "issue_loop now width (stageExecute now (stageCommit now ?s1))"
  have "lsq_tags_below ?s1" using assms by (simp add: lsq_tags_below_def)
  then have 4: "lsq_tags_below ?s4"
    by (intro issue_loop_tags_below stageExecute_tags_below stageCommit_tags_below)
  have "step now s = ?s4\<lparr>robOccupationHistory := robOccupationHistory ?s4 @ [length (rob ?s4)],
            rsOccupationHistory := rsOccupationHistory ?s4
               @ [count_busy (rsALU ?s4) + count_busy (rsLS ?s4)]\<rparr>"
    using False by (auto simp: step_def Let_def)
  then show ?thesis
    using 4 by (simp add: lsq_tags_below_def)
qed

lemma run_tags_below:
  assumes "lsq_tags_below s"
  shows "lsq_tags_below (run now s n)"
  using assms by (induction n) (simp_all add: step_tags_below)

lemma reset_tags_below: "lsq_tags_below (reset prog)"
  by (simp add: lsq_tags_below_def reset_def loadProgram_fields new_Simulator_def initRS_def)

subsection \<open>From the flush on\<close>

lemma flush_leaves_stale:
  assumes m: "mispredicted s" and ne: "lsq s \<noteq> []" and b: "lsq_tags_below s"
  shows "stale_lsq (lsq s) (nextRobTag s) (stageCommit now s)"
proof -
  have "stageCommit now s =
        flushPipeline (r_targetAddr (hd (rob s))) (r_result (hd (rob s)) = 1)
          (log (FlushBranch (r_pc (hd (rob s)))) (train_predictor (hd (rob s)) s))"
    using m stageCommit_cases [of now s] by (auto simp: mispredicted_iff)
  then show ?thesis
    using ne b
    by (simp add: stale_lsq_def flushPipeline_fields log_fields train_predictor_fields
          free_pool lsq_tags_below_def)
qed

lemma step_after_flush:
  assumes m: "mispredicted s" and ne: "lsq s \<noteq> []" and b: "lsq_tags_below s"
  shows "stale_lsq (lsq s) (nextRobTag s) (step now s)"
proof -
  let ?s1 = "s\<lparr>clock := clock s + 1\<rparr>"
  let ?s4 = "issue_loop now width (stageExecute now (stageCommit now ?s1))"
  have r: "rob s \<noteq> []" using m by (simp add: mispredicted_iff)
  have "mispredicted ?s1" "lsq ?s1 \<noteq> []" "lsq_tags_below ?s1"
    using m ne b by (simp_all add: mispredicted_iff lsq_tags_below_def)
  from flush_leaves_stale [OF this, of now]
  have "stale_lsq (lsq s) (nextRobTag s) (stageCommit now ?s1)" by simp
  then have 4: "stale_lsq (lsq s) (nextRobTag s) ?s4"
    by (intro issue_loop_stale stageExecute_stale)
  have "step now s = ?s4\<lparr>robOccupationHistory := robOccupationHistory ?s4 @ [length (rob ?s4)],
            rsOccupationHistory := rsOccupationHistory ?s4
               @ [count_busy (rsALU ?s4) + count_busy (rsLS ?s4)]\<rparr>"
    using r by (auto simp: step_def Let_def)
  then show ?thesis
    using 4 by (simp add: stale_lsq_def)
qed

lemma run_add: "run now s (n + k) = run now (run now s n) k"
  by (induction k) simp_all

lemma stale_after_flush:
  assumes m: "mispredicted (run now s n)" and ne: "lsq (run now s n) \<noteq> []"
    and b: "lsq_tags_below s" and nm: "n < m"
  shows "stale_lsq (lsq (run now s n)) (nextRobTag (run now s n)) (run now s m)"
proof -
  obtain k where k: "m = Suc n + k" using nm by (metis less_iff_Suc_add add_Suc)
  have "stale_lsq (lsq (run now s n)) (nextRobTag (run now s n)) (run now s (Suc n))"
    using step_after_flush [OF m ne run_tags_below [OF b]] by simp
  from run_stale [OF this, of now k] show ?thesis
    unfolding k run_add [of now s "Suc n" k] .
qed

text \<open>
  Claim C9. Take a run from reset in which the commit stage of cycle \<open>n + 1\<close> flushes
  while the LSQ is not empty. After every later cycle \<open>m\<close> the LSQ still starts with
  the entries it held at the flush, so its head is the same stale entry; the tag of that
  entry lies below the tag counter of the time of the flush while every ROB entry is
  tagged from that counter on; and whenever a load or store is at the head of the ROB,
  the commit stage of the next cycle leaves the ROB and the committed count as they are:
  no load or store commits after the flush.
\<close>

theorem stale_lsq_blocks_memory_commits:
  assumes "mispredicted (run now (reset prog) n)" and "lsq (run now (reset prog) n) \<noteq> []"
    and "n < m"
  shows "take (length (lsq (run now (reset prog) n))) (lsq (run now (reset prog) m))
           = lsq (run now (reset prog) n)
     \<and> hd (lsq (run now (reset prog) m)) = hd (lsq (run now (reset prog) n))
     \<and> l_robTag (hd (lsq (run now (reset prog) m))) < nextRobTag (run now (reset prog) n)
     \<and> list_all (\<lambda>t. nextRobTag (run now (reset prog) n) \<le> t)
         (map r_robTag (rob (run now (reset prog) m)))
     \<and> (rob (run now (reset prog) m) \<noteq> []
          \<and> (r_op (hd (rob (run now (reset prog) m))) = LW
              \<or> r_op (hd (rob (run now (reset prog) m))) = SW) \<longrightarrow>
         rob (stageCommit now
                ((run now (reset prog) m)\<lparr>clock := clock (run now (reset prog) m) + 1\<rparr>))
           = rob (run now (reset prog) m)
         \<and> instructionsCommitted (stageCommit now
                ((run now (reset prog) m)\<lparr>clock := clock (run now (reset prog) m) + 1\<rparr>))
           = instructionsCommitted (run now (reset prog) m))"
proof -
  let ?L = "lsq (run now (reset prog) n)"
  let ?N = "nextRobTag (run now (reset prog) n)"
  let ?s = "run now (reset prog) m"
  have st: "stale_lsq ?L ?N ?s"
    using stale_after_flush [OF assms(1,2) reset_tags_below assms(3)] .
  then have st1: "stale_lsq ?L ?N (?s\<lparr>clock := clock ?s + 1\<rparr>)"
    by (simp add: stale_lsq_def)
  have 1: "take (length ?L) (lsq ?s) = ?L"
    and 4: "list_all (\<lambda>t. ?N \<le> t) (map r_robTag (rob ?s))"
    using st by (simp_all add: stale_lsq_def)
  have 2: "hd (lsq ?s) = hd ?L" and 3: "l_robTag (hd (lsq ?s)) < ?N"
    using stale_lsq_head [OF st] by blast+
  have 5: "rob ?s \<noteq> [] \<and> (r_op (hd (rob ?s)) = LW \<or> r_op (hd (rob ?s)) = SW) \<longrightarrow>
         rob (stageCommit now (?s\<lparr>clock := clock ?s + 1\<rparr>)) = rob ?s
         \<and> instructionsCommitted (stageCommit now (?s\<lparr>clock := clock ?s + 1\<rparr>))
             = instructionsCommitted ?s"
    using stale_blocks_memory_commit [OF st1, of now] by simp
  show ?thesis using 1 2 3 4 5 by blast
qed

lemma flush_moment_view:
  "(mispredicted (run frozen_clock (reset prog_branch_over_loads) 2),
    map l_robTag (lsq (run frozen_clock (reset prog_branch_over_loads) 2)))
   = (True, [2, 3])"
  by code_simp

lemma after_flush_head_view:
  "(\<lambda>s. (map r_robTag (rob s), map r_op (rob s), map r_isReady (rob s)))
     (run frozen_clock (reset prog_branch_over_loads) 5)
   = ([5, 6], [LW, ADDI], [True, True])"
  by code_simp

theorem stale_lsq_blocks_memory_commits_witness:
  "mispredicted (run frozen_clock (reset prog_branch_over_loads) 2)
   \<and> map l_robTag (lsq (run frozen_clock (reset prog_branch_over_loads) 2)) = [2, 3]
   \<and> r_op (hd (rob (run frozen_clock (reset prog_branch_over_loads) 5))) = LW
   \<and> r_isReady (hd (rob (run frozen_clock (reset prog_branch_over_loads) 5)))
   \<and> r_robTag (hd (rob (run frozen_clock (reset prog_branch_over_loads) 5))) = 5
   \<and> l_robTag (hd (lsq (run frozen_clock (reset prog_branch_over_loads) 5))) = 2
   \<and> rob (stageCommit frozen_clock
        ((run frozen_clock (reset prog_branch_over_loads) 5)
           \<lparr>clock := clock (run frozen_clock (reset prog_branch_over_loads) 5) + 1\<rparr>))
       = rob (run frozen_clock (reset prog_branch_over_loads) 5)"
proof -
  let ?s2 = "run frozen_clock (reset prog_branch_over_loads) 2"
  let ?s5 = "run frozen_clock (reset prog_branch_over_loads) 5"
  have m: "mispredicted ?s2" and l: "map l_robTag (lsq ?s2) = [2, 3]"
    using flush_moment_view by simp_all
  from l have ne: "lsq ?s2 \<noteq> []" by auto
  from l have h2: "l_robTag (hd (lsq ?s2)) = 2" by (cases "lsq ?s2") auto
  have r: "map r_robTag (rob ?s5) = [5, 6]" "map r_op (rob ?s5) = [LW, ADDI]"
    "map r_isReady (rob ?s5) = [True, True]"
    using after_flush_head_view by simp_all
  then have h5: "rob ?s5 \<noteq> []" "r_op (hd (rob ?s5)) = LW" "r_isReady (hd (rob ?s5))"
    "r_robTag (hd (rob ?s5)) = 5"
    by (cases "rob ?s5"; auto)+
  have "(2::nat) < 5" by simp
  from stale_lsq_blocks_memory_commits [OF m ne this] h5 h2 m l show ?thesis
    by simp
qed

subsection \<open>The wall clock in the cache\<close>

text \<open>Whatever the access, the way it hits or fills carries the clock reading afterwards.\<close>

lemma victim_less: "victim st < ways"
  by (simp add: victim_def ways_def)

lemma access_stamps_with_clock:
  "\<exists>way < ways.
     lru (tags (snd (access t addr w c)) (nat (and (drop_bit 6 (ToInt32 addr)) 0x1F)) way) = t
     \<and> tag (tags (snd (access t addr w c)) (nat (and (drop_bit 6 (ToInt32 addr)) 0x1F)) way)
         = drop_bit 11 (ToInt32 addr)"
proof (cases "find (\<lambda>i. tag (tags c (nat (and (drop_bit 6 (ToInt32 addr)) 0x1F)) i)
                 = drop_bit 11 (ToInt32 addr)) [0..<ways]")
  case None
  then show ?thesis
    using victim_less [of "tags c (nat (and (drop_bit 6 (ToInt32 addr)) 0x1F))"]
    by (auto simp: access_def Let_def intro!: exI [where x = "victim (tags c (nat (and (drop_bit 6 (ToInt32 addr)) 0x1F)))"])
next
  case (Some wayIdx)
  then have "wayIdx < ways
     \<and> tag (tags c (nat (and (drop_bit 6 (ToInt32 addr)) 0x1F)) wayIdx) = drop_bit 11 (ToInt32 addr)"
    by (auto simp: find_Some_iff)
  with Some show ?thesis
    by (auto simp: access_def Let_def intro!: exI [where x = wayIdx])
qed

lemma loads_frozen: "l1d_counters (run frozen_clock (reset prog_loads) 5) = (5, 1, 4)"
  by code_simp

lemma loads_ticking: "l1d_counters (run ticking_clock (reset prog_loads) 5) = (5, 2, 3)"
  by code_simp

text \<open>
  Claim C3 fails: Cache.access stamps the way it hits or replaces with \<open>Date.now()\<close>, and
  the victim of a miss is the first way of smallest stamp. Two runs of \<open>prog_loads\<close> from
  reset that differ only in what the wall clock returns (the same millisecond throughout,
  or a later one at every call) end their fifth cycle with different hit and miss
  counts of the data cache.
\<close>

theorem wall_clock_changes_cache_counters:
  "accessCount (l1d (run frozen_clock (reset prog_loads) 5)) = 5
   \<and> accessCount (l1d (run ticking_clock (reset prog_loads) 5)) = 5
   \<and> hitCount (l1d (run frozen_clock (reset prog_loads) 5)) = 1
   \<and> hitCount (l1d (run ticking_clock (reset prog_loads) 5)) = 2
   \<and> missCount (l1d (run frozen_clock (reset prog_loads) 5)) = 4
   \<and> missCount (l1d (run ticking_clock (reset prog_loads) 5)) = 3"
  using loads_frozen loads_ticking by (simp add: l1d_counters_def)

end
